theory Spec2Isabelle
  imports Main "HOL-Library.Char_ord" "HOL-Library.List_Lexorder"
begin

section \<open>Python values used by the decompiler\<close>

text \<open>
  Python strings are modelled as \<open>string\<close>; a character is one of Isabelle's 8-bit
  characters, that is a code point below 256. Exceptions are values of \<open>error\<close>.
\<close>

datatype error =
    IndexError
  | KeyError
  | TypeError
  | AttributeError
  | AssertionError
  | SourceWalkerError string

abbreviation NL :: char where "NL \<equiv> CHR 0x0A"
abbreviation CR :: char where "CR \<equiv> CHR 0x0D"
abbreviation TABC :: char where "TABC \<equiv> CHR 0x09"
abbreviation BSL :: char where "BSL \<equiv> CHR 0x5C"
abbreviation SQ :: char where "SQ \<equiv> CHR 0x27"
abbreviation DQ :: char where "DQ \<equiv> CHR 0x22"

text \<open>Operand values (\<open>attr\<close>, \<open>pattr\<close>) as far as the code below inspects them.\<close>

datatype pyval = PNone | PInt int | PStr string

section \<open>Render state of \<open>SourceWalker\<close> (pysource.py)\<close>

text \<open>
  \<open>self.params\<close> is a dictionary; \<open>__init__\<close> creates it with the keys \<open>f\<close> and
  \<open>indent\<close> only, \<open>traverse\<close> with all five. The output stream \<open>f\<close> is the text written
  to it so far.
\<close>

record params =
  f_buffer :: string
  indent :: string
  is_lambda :: "bool option"
  scope_globals :: "(string \<times> string) list option"
  scope_nonlocals :: "(string \<times> string) list option"

record walker =
  version :: "nat list"
  params :: params
  param_stack :: "params list"
  prec :: int
  pending_newlines :: nat
  line_number :: int
  return_none :: bool
  name :: "string option"
  mod_globs :: "string list"
  ast_errors :: "string list"
  ERROR :: "string option"
  walker_text :: "string option"
  debug_opts :: "(string \<times> string) list"

text \<open>
  The fields \<open>__init__\<close> sets (lines 250-276), for a version and the stream \<open>out\<close>.
  A version is the list of the components of its tuple; tuples and lists compare alike.
\<close>

definition SourceWalker_init :: "nat list \<Rightarrow> string \<Rightarrow> walker" where
  "SourceWalker_init ver out =
     \<lparr> version = ver,
       params = \<lparr> f_buffer = out, indent = [], is_lambda = None,
                   scope_globals = None, scope_nonlocals = None \<rparr>,
       param_stack = [],
       prec = 100,
       pending_newlines = 0,
       line_number = 1,
       return_none = False,
       name = None,
       mod_globs = [],
       ast_errors = [],
       ERROR = None,
       walker_text = None,
       debug_opts = [] \<rparr>"

text \<open>\<open>self.f.write(str)\<close>: append to the stream of the current scope.\<close>

definition f_write :: "string \<Rightarrow> walker \<Rightarrow> walker" where
  "f_write str s = s\<lparr> params := (params s)\<lparr> f_buffer := f_buffer (params s) @ str \<rparr> \<rparr>"

text \<open>
  Both loops of \<open>write\<close> count a run of newlines from the front of a string and stop at
  the first other character (the second loop runs over the reversed string).
\<close>

fun newline_run :: "string \<Rightarrow> nat" where
  "newline_run [] = 0"
| "newline_run (c # cs) = (if c = NL then Suc (newline_run cs) else 0)"

text \<open>
  \<open>write(*data)\<close>, lines 452-482. A write of nothing but newlines only raises the
  pending count to the length of the run; any other write first emits the pending
  newlines, then the text without its trailing newlines, which become pending.
\<close>

definition write_data :: "string list \<Rightarrow> walker \<Rightarrow> walker" where
  "write_data data s =
     (if data = [] \<or> data = [[]] then s
      else
        let out = concat data;
            n = newline_run out
        in if out \<noteq> [] \<and> n = length out
           then s\<lparr> pending_newlines := max (pending_newlines s) n \<rparr>
           else
             let s1 = (if n \<noteq> 0 then s\<lparr> pending_newlines := max (pending_newlines s) n \<rparr>
                       else s);
                 out1 = (if n \<noteq> 0 then drop n out else out);
                 s2 = (if pending_newlines s1 > 0
                       then (f_write (replicate (pending_newlines s1) NL) s1)
                              \<lparr> pending_newlines := 0 \<rparr>
                       else s1);
                 s3 = s2\<lparr> pending_newlines := pending_newlines s2 + newline_run (rev out1) \<rparr>;
                 out2 = (if pending_newlines s3 \<noteq> 0
                         then take (length out1 - pending_newlines s3) out1
                         else out1)
             in f_write out2 s3)"

text \<open>\<open>println(*data)\<close>, lines 484-487.\<close>

definition println :: "string list \<Rightarrow> walker \<Rightarrow> walker" where
  "println data s =
     (let s1 = (if data \<noteq> [] \<and> data \<noteq> [[]] then write_data data s else s)
      in s1\<lparr> pending_newlines := max (pending_newlines s1) 1 \<rparr>)"

text \<open>The state after lines 470-472: the pending newlines are in the stream.\<close>

definition flush_newlines :: "walker \<Rightarrow> walker" where
  "flush_newlines s =
     (f_write (replicate (pending_newlines s) NL) s)\<lparr> pending_newlines := 0 \<rparr>"

text \<open>
  \<open>traverse(node, indent=None, is_lambda=False)\<close>, lines 432-450. The render of the
  node, \<open>self.preorder\<close>, is a parameter: it dispatches to every handler of the class.
  An error from it is an exception that leaves \<open>traverse\<close> at once; \<open>pop\<close> of an empty
  stack raises \<open>IndexError\<close>.

  Lines 433-444 first: the state in which the render of the node starts. The caller's
  parameters are on the stack, the new ones have an empty stream.
\<close>

definition traverse_scope :: "string option \<Rightarrow> bool \<Rightarrow> walker \<Rightarrow> walker" where
  "traverse_scope ind lam s =
     (let s1 = s\<lparr> param_stack := param_stack s @ [params s] \<rparr>;
          ind' = (case ind of None \<Rightarrow> indent (params s1) | Some i \<Rightarrow> i);
          s2 = s1\<lparr> pending_newlines := 0 \<rparr>
      in s2\<lparr> params := \<lparr> f_buffer = [], indent = ind', is_lambda = Some lam,
                            scope_globals = Some [], scope_nonlocals = Some [] \<rparr> \<rparr>)"

definition traverse ::
  "('n \<Rightarrow> walker \<Rightarrow> error + walker) \<Rightarrow> 'n \<Rightarrow> string option \<Rightarrow> bool \<Rightarrow> walker
     \<Rightarrow> error + (string \<times> walker)" where
  "traverse preorder node ind lam s =
     (let p = pending_newlines s
      in case preorder node (traverse_scope ind lam s) of
           Inl e \<Rightarrow> Inl e
         | Inr s4 \<Rightarrow>
             let s5 = f_write (replicate (pending_newlines s4) NL) s4;
                 result = f_buffer (params s5)
             in if param_stack s5 = [] then Inl IndexError
                else
                  let s6 = s5\<lparr> params := last (param_stack s5),
                               param_stack := butlast (param_stack s5) \<rparr>
                  in Inr (result, s6\<lparr> pending_newlines := p \<rparr>))"

section \<open>Tokens, trees and instructions\<close>

text \<open>
  A token exposes to the code below its \<open>kind\<close>, its operands \<open>attr\<close> and \<open>pattr\<close>, the
  line it starts if any, and its offset through \<open>off2int\<close>, whose two readings
  (\<open>prefer_last=False\<close> and the default \<open>prefer_last=True\<close>) are both carried by the
  token. A tree node has a kind and an ordered list of children. Comparing a token or a
  node with a string compares its kind.
\<close>

record token =
  kind :: string
  attr :: pyval
  pattr :: pyval
  off2int_first :: int
  off2int_last :: int
  linestart :: "int option"

datatype node = Tok token | Tree string "node list"

record inst =
  offset :: int
  optype :: string
  argval :: int

text \<open>What \<open>iflaststmt\<close> reads of the parser \<open>self\<close>.\<close>

record parser =
  insts :: "inst list"
  offset2inst_index :: "int \<rightharpoonup> int"

definition err_bind :: "error + 'a \<Rightarrow> ('a \<Rightarrow> error + 'b) \<Rightarrow> error + 'b" where
  "err_bind m k = (case m of Inl e \<Rightarrow> Inl e | Inr x \<Rightarrow> k x)"

text \<open>\<open>xs[i]\<close>: a negative index counts from the end, an index out of range raises.\<close>

definition py_index :: "'a list \<Rightarrow> int \<Rightarrow> error + 'a" where
  "py_index xs i =
     (let n = int (length xs); j = (if i < 0 then n + i else i)
      in if 0 \<le> j \<and> j < n then Inr (xs ! nat j) else Inl IndexError)"

definition dict_get :: "('k \<rightharpoonup> 'v) \<Rightarrow> 'k \<Rightarrow> error + 'v" where
  "dict_get d k = (case d k of None \<Rightarrow> Inl KeyError | Some v \<Rightarrow> Inr v)"

fun kind_of :: "node \<Rightarrow> string" where
  "kind_of (Tok t) = kind t"
| "kind_of (Tree k cs) = k"

text \<open>\<open>node[i]\<close>; a token has no children.\<close>

fun child :: "node \<Rightarrow> int \<Rightarrow> error + node" where
  "child (Tree k cs) i = py_index cs i"
| "child (Tok t) i = Inl IndexError"

text \<open>\<open>len(node)\<close> of a tree; only trees reach the calls below.\<close>

fun node_len :: "node \<Rightarrow> error + nat" where
  "node_len (Tree k cs) = Inr (length cs)"
| "node_len (Tok t) = Inl TypeError"

text \<open>\<open>node.attr\<close> and \<open>node.pattr\<close>: fields of tokens only.\<close>

fun attr_of :: "node \<Rightarrow> error + pyval" where
  "attr_of (Tok t) = Inr (attr t)"
| "attr_of (Tree k cs) = Inl AttributeError"

fun pattr_of :: "node \<Rightarrow> error + pyval" where
  "pattr_of (Tok t) = Inr (pattr t)"
| "pattr_of (Tree k cs) = Inl AttributeError"

text \<open>
  Modelled from the spec: \<open>SyntaxTree.first_child\<close> (treenode.py is not among the
  sources). The body's first instruction is its leftmost leaf; a tree without children
  is its own first child.
\<close>

fun first_child :: "node \<Rightarrow> node" where
  "first_child (Tok t) = Tok t"
| "first_child (Tree k []) = Tree k []"
| "first_child (Tree k (c # cs)) = first_child c"

text \<open>\<open>node.off2int(prefer_last)\<close>: a method of tokens.\<close>

fun off2int :: "node \<Rightarrow> bool \<Rightarrow> error + int" where
  "off2int (Tok t) prefer_last = Inr (if prefer_last then off2int_last t else off2int_first t)"
| "off2int (Tree k cs) prefer_last = Inl AttributeError"

text \<open>\<open>tokens[i] == k\<close>.\<close>

definition token_is :: "token list \<Rightarrow> int \<Rightarrow> string \<Rightarrow> error + bool" where
  "token_is tokens i k = err_bind (py_index tokens i) (\<lambda>t. Inr (kind t = k))"

text \<open>\<open>s.startswith(p)\<close>.\<close>

definition startswith :: "string \<Rightarrow> string \<Rightarrow> bool" where
  "startswith s p = (take (length p) s = p)"

section \<open>The reduction check \<open>iflaststmt\<close> (iflaststmt.py)\<close>

text \<open>
  The \<open>while\<close> loop of lines 45-52, from index \<open>i\<close>: \<open>False\<close> at the first jump to
  \<open>target_offset\<close> among the instructions before that offset, \<open>True\<close> when an instruction
  at or after it is reached first; running off the instruction list raises.
\<close>

function scan_jumps :: "inst list \<Rightarrow> int \<Rightarrow> int \<Rightarrow> error + bool" where
  "scan_jumps is i target_offset =
     (case py_index is i of
        Inl e \<Rightarrow> Inl e
      | Inr ins \<Rightarrow>
          if offset ins < target_offset
          then if (optype ins = ''jabs'' \<or> optype ins = ''jrel'') \<and> argval ins = target_offset
               then Inr False
               else scan_jumps is (i + 1) target_offset
          else Inr True)"
  by pat_completeness auto
termination
  by (relation "measure (\<lambda>(is, i, t). nat (int (length is) - i))")
     (auto simp: py_index_def Let_def split: if_splits)

declare scan_jumps.simps [simp del]

text \<open>
  Lines 24-54: the check of the rule \<open>iflaststmt ::= testexpr stmts\<close>. \<open>Some b\<close> is a
  \<open>return b\<close>; \<open>None\<close> falls through to the rest of the function.
\<close>

definition iflaststmt_rule_check ::
  "parser \<Rightarrow> string \<times> string list \<Rightarrow> node \<Rightarrow> token list \<Rightarrow> int \<Rightarrow> error + bool option" where
  "iflaststmt_rule_check self rule ast tokens last_i =
     (if rule = (''iflaststmt'', [''testexpr'', ''stmts''])
      then
        err_bind (child ast 1) (\<lambda>stmts.
        err_bind (off2int (first_child stmts) False) (\<lambda>stmt_offset.
        err_bind (dict_get (offset2inst_index self) stmt_offset) (\<lambda>inst_offset.
        err_bind (py_index (insts self) (inst_offset - 1)) (\<lambda>testexpr_last_inst.
        if optype testexpr_last_inst = ''jabs''
        then
          let target_offset = argval testexpr_last_inst
          in err_bind (py_index tokens last_i) (\<lambda>t_last.
             if target_offset \<noteq> off2int_first t_last
             then err_bind (scan_jumps (insts self) inst_offset target_offset)
                    (\<lambda>b. Inr (Some b))
             else Inr None)
        else Inr None))))
      else Inr None)"

text \<open>
  Lines 64-98, entered with the jump token \<open>test[1]\<close>: the containment test, the two
  loop checks, the preceding \<open>POP_JUMP_IF_FALSE\<close> and the final comparison. The chained
  comparison of line 69 raises \<open>TypeError\<close> on an operand that is not an integer and
  reads \<open>tokens[last]\<close> only when its first half holds.
\<close>

definition iflaststmt_jump_check ::
  "int \<Rightarrow> node \<Rightarrow> token list \<Rightarrow> int \<Rightarrow> int \<Rightarrow> error + bool" where
  "iflaststmt_jump_check n test1 tokens first last0 =
     (let last_i = (if last0 = n then last0 - 1 else last0)
      in err_bind (attr_of test1) (\<lambda>jump_target_val.
         err_bind (py_index tokens first) (\<lambda>t_first.
         let first_offset = off2int_last t_first
         in case jump_target_val of
              PInt jump_target \<Rightarrow>
                err_bind (if first_offset \<le> jump_target
                          then err_bind (py_index tokens last_i)
                                 (\<lambda>t_last. Inr (jump_target < off2int_last t_last))
                          else Inr False) (\<lambda>inside.
                if inside then Inr True
                else
                  err_bind
                    (if last_i + 1 < n
                     then
                       err_bind (token_is tokens (last_i - 1) ''JUMP_BACK'') (\<lambda>jb.
                       if jb then Inr (jump_target > first_offset)
                       else
                         err_bind (token_is tokens (last_i + 1) ''COME_FROM_LOOP'') (\<lambda>cfl.
                         if cfl
                         then err_bind (token_is tokens last_i ''BREAK_LOOP'')
                                (\<lambda>brk. Inr (\<not> brk))
                         else Inr False))
                     else Inr False) (\<lambda>loop_reject.
                  if loop_reject then Inr True
                  else
                    err_bind (if first > 0
                              then token_is tokens (first - 1) ''POP_JUMP_IF_FALSE''
                              else Inr False) (\<lambda>chained.
                    if chained
                    then err_bind (py_index tokens (first - 1))
                           (\<lambda>t_prev. Inr (attr t_prev = PInt jump_target))
                    else
                      err_bind (py_index tokens last_i) (\<lambda>t_last.
                      if jump_target > off2int_last t_last
                      then err_bind (py_index tokens (last_i - 1)) (\<lambda>t_prev. Inr False)
                      else Inr False))))
            | _ \<Rightarrow> Inl TypeError)))"

text \<open>Lines 56-100: the checks on the test node \<open>testexpr[0]\<close>.\<close>

definition iflaststmt_test_check ::
  "int \<Rightarrow> string \<times> string list \<Rightarrow> node \<Rightarrow> token list \<Rightarrow> int \<Rightarrow> int \<Rightarrow> error + bool" where
  "iflaststmt_test_check n rule testexpr tokens first last_i =
     err_bind (child testexpr 0) (\<lambda>test.
     if kind_of test \<in> set [''testtrue'', ''testtruec'', ''testfalse'', ''testfalsec'']
     then
       err_bind (node_len test) (\<lambda>test_len.
       err_bind (if test_len = 1
                 then err_bind (child test 0) (\<lambda>t0.
                        Inr (kind_of t0 \<in> set [''nand'', ''and'']
                             \<and> snd rule = [''testexpr'', ''stmts'']))
                 else Inr False) (\<lambda>and_first.
       if and_first then Inr True
       else
         err_bind (if test_len > 1
                   then err_bind (child test 1) (\<lambda>t1.
                          Inr (startswith (kind_of t1) ''POP_JUMP_IF_''))
                   else Inr False) (\<lambda>has_jump.
         if has_jump
         then err_bind (child test 1) (\<lambda>t1. iflaststmt_jump_check n t1 tokens first last_i)
         else Inr False)))
     else Inr False)"

text \<open>
  \<open>iflaststmt(self, lhs, n, rule, ast, tokens, first, last)\<close>: \<open>True\<close> rejects the
  reduction. Line 21 moves \<open>last\<close> off a trailing \<open>RETURN_LAST\<close>.
\<close>

definition iflaststmt ::
  "parser \<Rightarrow> string \<Rightarrow> int \<Rightarrow> string \<times> string list \<Rightarrow> node \<Rightarrow> token list \<Rightarrow> int \<Rightarrow> int
     \<Rightarrow> error + bool" where
  "iflaststmt self lhs n rule ast tokens first last0 =
     err_bind (child ast 0) (\<lambda>testexpr.
     err_bind (token_is tokens last0 ''RETURN_LAST'') (\<lambda>rl.
     let last_i = (if rl then last0 - 1 else last0)
     in err_bind (iflaststmt_rule_check self rule ast tokens last_i) (\<lambda>r.
        case r of
          Some b \<Rightarrow> Inr b
        | None \<Rightarrow> iflaststmt_test_check n rule testexpr tokens first last_i)))"

text \<open>
  The call gets past the rule check and the test node to line 64 with the jump token
  \<open>test1 = test[1]\<close> and with \<open>last_i\<close> the index after line 21.
\<close>

definition reaches_jump_check ::
  "parser \<Rightarrow> string \<times> string list \<Rightarrow> node \<Rightarrow> token list \<Rightarrow> int \<Rightarrow> node \<Rightarrow> int \<Rightarrow> bool" where
  "reaches_jump_check self rule ast tokens last0 test1 last_i =
     (case child ast 0 of
        Inl e \<Rightarrow> False
      | Inr testexpr \<Rightarrow>
          (case token_is tokens last0 ''RETURN_LAST'' of
             Inl e \<Rightarrow> False
           | Inr rl \<Rightarrow>
               last_i = (if rl then last0 - 1 else last0)
               \<and> iflaststmt_rule_check self rule ast tokens last_i = Inr None
               \<and> (case child testexpr 0 of
                     Inr (Tree k cs) \<Rightarrow>
                       k \<in> set [''testtrue'', ''testtruec'', ''testfalse'', ''testfalsec'']
                       \<and> 1 < length cs \<and> cs ! 1 = test1
                       \<and> startswith (kind_of test1) ''POP_JUMP_IF_''
                   | _ \<Rightarrow> False)))"

text \<open>
  The example of the specification: tokens at offsets 10, 20 and 30, an \<open>if\<close> whose
  test ends in a conditional jump at offset 12 to \<open>target\<close>.
\<close>

definition tok :: "string \<Rightarrow> pyval \<Rightarrow> int \<Rightarrow> token" where
  "tok k a off = \<lparr> kind = k, attr = a, pattr = a, off2int_first = off, off2int_last = off,
                  linestart = None \<rparr>"

definition ex_tokens :: "token list" where
  "ex_tokens = [tok ''LOAD_NAME'' (PStr ''a'') 10, tok ''LOAD_NAME'' (PStr ''b'') 20,
                tok ''POP_TOP'' PNone 30]"

definition ex_ast :: "int \<Rightarrow> node" where
  "ex_ast target =
     Tree ''iflaststmt''
       [Tree ''testexpr''
          [Tree ''testfalse''
             [Tree ''expr'' [Tok (tok ''LOAD_NAME'' (PStr ''a'') 10)],
              Tok (tok ''POP_JUMP_IF_FALSE'' (PInt target) 12)]],
        Tree ''stmts'' [Tok (tok ''LOAD_NAME'' (PStr ''b'') 20)]]"

text \<open>
  Instructions for the example: the conditional jump at offset 12 (an absolute jump,
  \<open>optype\<close> \<open>jabs\<close>) and a body whose first instruction, at offset 20, jumps forward to
  \<open>target\<close> as well.
\<close>

definition ex_self :: "int \<Rightarrow> parser" where
  "ex_self target =
     \<lparr> insts = [\<lparr> offset = 12, optype = ''jabs'', argval = target \<rparr>,
                \<lparr> offset = 20, optype = ''jrel'', argval = target \<rparr>,
                \<lparr> offset = 30, optype = ''other'', argval = 0 \<rparr>],
       offset2inst_index = [12 \<mapsto> 0, 20 \<mapsto> 1, 30 \<mapsto> 2] \<rparr>"

text \<open>
  The same \<open>if\<close> preceded by another \<open>POP_JUMP_IF_FALSE\<close>, at offset 8, that jumps to
  \<open>target0\<close>.
\<close>

definition ex_tokens_chained :: "int \<Rightarrow> token list" where
  "ex_tokens_chained target0 = tok ''POP_JUMP_IF_FALSE'' (PInt target0) 8 # ex_tokens"

section \<open>Example renders\<close>

text \<open>The four writes of the example, as the render of a node.\<close>

definition four_writes :: "unit \<Rightarrow> walker \<Rightarrow> error + walker" where
  "four_writes u s =
     Inr (write_data [[NL]] (write_data [[NL]] (write_data [''a''] (write_data [[NL, NL]] s))))"

text \<open>A render that itself renders a nested scope and splices its text in.\<close>

definition nested_writes :: "unit \<Rightarrow> walker \<Rightarrow> error + walker" where
  "nested_writes u s =
     err_bind (traverse four_writes u None True s)
       (\<lambda>(txt, s'). Inr (write_data [''('', txt, '')''] s'))"

section \<open>Python string operations\<close>

text \<open>\<open>s.find(sub)\<close>: the index of the first occurrence, or \<open>-1\<close>.\<close>

fun find_from :: "nat \<Rightarrow> string \<Rightarrow> string \<Rightarrow> int" where
  "find_from i [] sub = (if sub = [] then int i else - 1)"
| "find_from i (c # cs) sub =
     (if startswith (c # cs) sub then int i else find_from (Suc i) cs sub)"

definition str_find :: "string \<Rightarrow> string \<Rightarrow> int" where
  "str_find s sub = find_from 0 s sub"

text \<open>
  \<open>s.replace(old, new)\<close>: the occurrences of \<open>old\<close> from left to right, without
  overlap; an empty \<open>old\<close> matches before every character and at the end.
\<close>

function replace :: "string \<Rightarrow> string \<Rightarrow> string \<Rightarrow> string" where
  "replace s old new =
     (if old = [] then new @ concat (map (\<lambda>c. c # new) s)
      else case s of
             [] \<Rightarrow> []
           | c # cs \<Rightarrow>
               if startswith s old then new @ replace (drop (length old) s) old new
               else c # replace cs old new)"
  by pat_completeness auto
termination
  by (relation "measure (\<lambda>(s, old, new). length s)") auto

declare replace.simps [simp del]

text \<open>\<open>s.split("\n")\<close>: never an empty list.\<close>

fun split_nl :: "string \<Rightarrow> string list" where
  "split_nl [] = [[]]"
| "split_nl (c # cs) =
     (if c = NL then [] # split_nl cs
      else case split_nl cs of
             [] \<Rightarrow> [[c]]
           | l # ls \<Rightarrow> (c # l) # ls)"

text \<open>
  \<open>s.expandtabs()\<close>, tab size 8: a tab becomes the spaces up to the next multiple of 8
  of the column, which a newline or a carriage return sets back to 0.
\<close>

fun expandtabs_from :: "nat \<Rightarrow> string \<Rightarrow> string" where
  "expandtabs_from col [] = []"
| "expandtabs_from col (c # cs) =
     (if c = TABC
      then let incr = 8 - col mod 8
           in replicate incr (CHR '' '') @ expandtabs_from (col + incr) cs
      else if c = NL \<or> c = CR then c # expandtabs_from 0 cs
      else c # expandtabs_from (Suc col) cs)"

definition expandtabs :: "string \<Rightarrow> string" where
  "expandtabs s = expandtabs_from 0 s"

text \<open>
  \<open>repr(s)\<close> of a string. The quote is \<open>"\<close> when the string has a \<open>'\<close> and no \<open>"\<close>,
  else \<open>'\<close>. The quote and the backslash get a backslash, tab, newline and carriage
  return their letter, and a character that is not printable (a control character, and
  among the code points from 128 to 255 those up to 160 and 173) its two hexadecimal
  digits after \<open>\x\<close>.
\<close>

definition hex_digit :: "nat \<Rightarrow> char" where
  "hex_digit n = ''0123456789abcdef'' ! (n mod 16)"

definition repr_char :: "char \<Rightarrow> char \<Rightarrow> string" where
  "repr_char quote c =
     (let n = of_char c :: nat
      in if c = quote \<or> c = BSL then [BSL, c]
         else if c = TABC then [BSL, CHR ''t'']
         else if c = NL then [BSL, CHR ''n'']
         else if c = CR then [BSL, CHR ''r'']
         else if n < 32 \<or> n = 127 \<or> (128 \<le> n \<and> n \<le> 160) \<or> n = 173
         then [BSL, CHR ''x'', hex_digit (n div 16), hex_digit n]
         else [c])"

definition repr_str :: "string \<Rightarrow> string" where
  "repr_str s =
     (let quote = (if SQ \<in> set s \<and> DQ \<notin> set s then DQ else SQ)
      in quote # concat (map (repr_char quote) s) @ [quote])"

text \<open>\<open>str(n)\<close> of an integer, in decimal.\<close>

function str_nat :: "nat \<Rightarrow> string" where
  "str_nat n =
     (if n < 10 then [hex_digit n] else str_nat (n div 10) @ [hex_digit (n mod 10)])"
  by pat_completeness auto
termination
  by (relation "measure id") auto

declare str_nat.simps [simp del]

fun str_of :: "pyval \<Rightarrow> string" where
  "str_of PNone = ''None''"
| "str_of (PInt i) = (if i < 0 then CHR ''-'' # str_nat (nat (- i)) else str_nat (nat i))"
| "str_of (PStr s) = s"

text \<open>The truth value of an operand.\<close>

fun truthy :: "pyval \<Rightarrow> bool" where
  "truthy PNone = False"
| "truthy (PInt i) = (i \<noteq> 0)"
| "truthy (PStr s) = (s \<noteq> [])"

section \<open>Handlers of \<open>SourceWalker\<close>\<close>

text \<open>
  A handler ends with \<open>self.prune()\<close>, which stops the traversal below the node: its
  model returns the state at that point, or the exception raised before it.

  \<open>n_alias\<close>, lines 825-846.
\<close>

definition n_alias :: "node \<Rightarrow> walker \<Rightarrow> error + walker" where
  "n_alias node s =
     (if version s \<le> [2, 1]
      then
        err_bind (node_len node) (\<lambda>len.
        if len = 2
        then
          err_bind (child node 1) (\<lambda>store.
          if kind_of store \<noteq> ''store'' then Inl AssertionError
          else
            err_bind (child store 0) (\<lambda>store0.
            err_bind (pattr_of store0) (\<lambda>spattr.
            err_bind (child node 0) (\<lambda>node0.
            err_bind (pattr_of node0) (\<lambda>npattr.
            if spattr = npattr
            then Inr (write_data [''import '' @ str_of npattr @ [NL]] s)
            else Inr (write_data
                        [''import '' @ str_of npattr @ '' as '' @ str_of spattr @ [NL]] s))))))
        else Inr s)
      else
        err_bind (child node (- 1)) (\<lambda>last_child.
        err_bind (child last_child (- 1)) (\<lambda>store_node.
        if \<not> startswith (kind_of store_node) ''STORE_'' then Inl AssertionError
        else
          err_bind (child node 0) (\<lambda>node0.
          err_bind (pattr_of node0) (\<lambda>iname.
          err_bind (pattr_of store_node) (\<lambda>sname.
          if truthy iname \<and> iname = sname then Inr (write_data [str_of iname] s)
          else
            case iname of
              PStr istr \<Rightarrow>
                (case sname of
                   PStr sstr \<Rightarrow>
                     if startswith istr (sstr @ ''.'') then Inr (write_data [istr] s)
                     else Inr (write_data [istr, '' as '', sstr] s)
                 | _ \<Rightarrow> Inl TypeError)
            | _ \<Rightarrow> Inl AttributeError))))))"

text \<open>
  \<open>n_docstring\<close>, lines 875-954. The \<open>println\<close> calls of the lines between the first
  and the last are the loop of lines 946-952.
\<close>

definition docstring_middle :: "string list \<Rightarrow> walker \<Rightarrow> walker" where
  "docstring_middle lines s =
     foldl (\<lambda>s line. if line \<noteq> [] then println [line] s else println [[NL, NL]] s) s lines"

text \<open>
  Lines 890-893: the quote is three single quotes only for a docstring that contains
  three double quotes in a row and not three single quotes in a row.
\<close>

definition docstring_quote :: "string \<Rightarrow> string" where
  "docstring_quote docstring =
     (if str_find docstring [DQ, DQ, DQ] \<ge> 0 \<and> str_find docstring [SQ, SQ, SQ] = - 1
      then [SQ, SQ, SQ] else [DQ, DQ, DQ])"

text \<open>
  Lines 896-906: the \<open>repr\<close> of the docstring without its quotes, with the escapes of
  newline, carriage return and the quotes undone and a tab for each escaped backslash.
\<close>

definition docstring_unescape :: "string \<Rightarrow> string" where
  "docstring_unescape docstring =
     (let r = repr_str (expandtabs docstring);
          d0 = take (length r - 2) (drop 1 r);
          d1 = replace d0 [BSL, BSL] [TABC];
          d2 = replace d1 [BSL, CHR ''r'', BSL, CHR ''n''] [NL];
          d3 = replace d2 [BSL, CHR ''n''] [NL];
          d4 = replace d3 [BSL, CHR ''r''] [NL];
          d5 = replace d4 [BSL, DQ] [DQ]
      in replace d5 [BSL, SQ] [SQ])"

text \<open>Lines 910-916: the test for a raw string.\<close>

definition docstring_raw :: "string \<Rightarrow> bool" where
  "docstring_raw docstring =
     (TABC \<in> set docstring \<and> BSL \<notin> set docstring
      \<and> length docstring \<ge> 2 \<and> last docstring \<noteq> TABC
      \<and> (last docstring \<noteq> DQ \<or> last (butlast docstring) = TABC))"

text \<open>
  Lines 921-935: a last character equal to the quote character and every occurrence of
  the triple quote get a backslash; the tabs become escaped backslashes again.
\<close>

definition docstring_escape :: "string \<Rightarrow> string \<Rightarrow> string" where
  "docstring_escape quote docstring =
     (let quote1 = last quote;
          e1 = (if docstring \<noteq> [] \<and> last docstring = quote1
                then butlast docstring @ [BSL] @ [quote1]
                else docstring);
          replace_str = BSL # quote;
          e2 = replace e1 quote replace_str
      in replace e2 [TABC] [BSL, BSL])"

definition n_docstring :: "node \<Rightarrow> walker \<Rightarrow> error + walker" where
  "n_docstring node s =
     (let ind = indent (params s)
      in err_bind (child node 0) (\<lambda>doc_node.
         err_bind (attr_of doc_node) (\<lambda>a.
         err_bind (if truthy a then Inr a else pattr_of doc_node) (\<lambda>doc.
         case doc of
           PStr docstring0 \<Rightarrow>
             let quote = docstring_quote docstring0;
                 s1 = write_data [ind] s;
                 docstring = docstring_unescape docstring0;
                 raw = docstring_raw docstring;
                 s2 = (if raw then write_data [''r''] s1 else s1);
                 docstring' = (if raw then replace docstring [TABC] [BSL]
                               else docstring_escape quote docstring);
                 lines = split_nl docstring';
                 s3 = write_data [quote] s2
             in if length lines = 0 then Inr (println [quote] s3)
                else if length lines = 1 then Inr (println [hd lines, quote] s3)
                else
                  let s4 = println [hd lines] s3;
                      s5 = docstring_middle (butlast (tl lines)) s4
                  in Inr (println [last lines, quote] s5)
         | PNone \<Rightarrow> Inl AttributeError
         | PInt i \<Rightarrow> if truthy a then Inr s else Inl AttributeError))))"

text \<open>
  \<open>gen_source\<close>, lines 2483-2507. \<open>self.customize\<close> and the render \<open>self.preorder\<close>
  of \<open>traverse\<close> are parameters.
\<close>

definition gen_source ::
  "('c \<Rightarrow> walker \<Rightarrow> error + walker) \<Rightarrow> (node \<Rightarrow> walker \<Rightarrow> error + walker)
     \<Rightarrow> node \<Rightarrow> string option \<Rightarrow> 'c \<Rightarrow> bool \<Rightarrow> bool \<Rightarrow> (string \<times> string) list
     \<Rightarrow> walker \<Rightarrow> error + walker" where
  "gen_source customize preorder tree nm cust lam returnNone dbg s =
     (let rn = return_none s;
          s1 = s\<lparr> return_none := returnNone \<rparr>;
          old_name = name s1;
          s2 = s1\<lparr> name := nm, debug_opts := dbg \<rparr>
      in err_bind (node_len tree) (\<lambda>len.
         err_bind
           (if len = 0 then Inr (println [indent (params s2), ''pass''] s2)
            else
              err_bind (customize cust s2) (\<lambda>s3.
              err_bind (traverse preorder tree None lam s3) (\<lambda>(txt, s4).
              Inr (println [txt] (s4\<lparr> walker_text := Some txt \<rparr>)))))
           (\<lambda>s5. Inr (s5\<lparr> name := old_name, return_none := rn \<rparr>))))"





text \<open>The docstring node of the example: the content \<open>He said "hi"\<close> and a newline.\<close>

definition ex_doc :: string where
  "ex_doc = ''He said '' @ [DQ] @ ''hi'' @ [DQ, NL]"

definition ex_docstring :: node where
  "ex_docstring = Tree ''docstring'' [Tok (tok ''LOAD_STR'' (PStr ex_doc) 0)]"

text \<open>Import aliases: the imported name in \<open>node[0]\<close>, the bound name in \<open>node[-1][-1]\<close>.\<close>

definition ex_alias :: "string \<Rightarrow> string \<Rightarrow> node" where
  "ex_alias iname sname =
     Tree ''alias''
       [Tok (tok ''IMPORT_NAME'' (PStr iname) 0),
        Tree ''store'' [Tok (tok ''STORE_NAME'' (PStr sname) 2)]]"

section \<open>Precedence in the expression handlers\<close>

text \<open>
  The table \<open>PRECEDENCE\<close> (consts.py) is a parameter, a dictionary from node kinds to
  integers. So is everything \<open>preorder\<close> dispatches to apart from the handlers below:
  \<open>default\<close> with its templates and the other handlers, as a function from the node and
  the state to the new state and whether the handler pruned.
\<close>

type_synonym prec_table = "string \<rightharpoonup> int"
type_synonym other_handlers = "node \<Rightarrow> walker \<Rightarrow> error + walker \<times> bool"

text \<open>\<open>for kid in node\<close>: a token has none.\<close>

fun kids :: "node \<Rightarrow> node list" where
  "kids (Tok t) = []"
| "kids (Tree k cs) = cs"

text \<open>\<open>set_pos_info\<close>, lines 418-420; tokens carry \<open>linestart\<close>.\<close>

fun set_pos_info :: "node \<Rightarrow> walker \<Rightarrow> walker" where
  "set_pos_info (Tok t) s =
     (case linestart t of
        None \<Rightarrow> s
      | Some l \<Rightarrow> if l \<noteq> 0 then s\<lparr> line_number := l \<rparr> else s)"
| "set_pos_info (Tree k cs) s = s"

text \<open>\<open>repr(v)[0] == "-"\<close>: among the operand values, the negative integers.\<close>

fun repr_minus :: "pyval \<Rightarrow> bool" where
  "repr_minus (PInt i) = (i < 0)"
| "repr_minus v = False"

text \<open>
  \<open>preorder\<close> (lines 422-424, over the traversal of the parser library): the handler
  named after the kind of the node runs; when it prunes, the visit of the node is over,
  otherwise the children are visited in order; \<open>set_pos_info\<close> comes last. The handlers
  are \<open>n_expr\<close> (lines 526-554, also bound to \<open>n_return_expr_or_cond\<close>), \<open>n_return_expr\<close>
  (lines 605-611) and \<open>n_bin_op\<close> (lines 504-514); each returns the state at its
  \<open>self.prune()\<close>.
\<close>

function
  preorder :: "prec_table \<Rightarrow> other_handlers \<Rightarrow> node \<Rightarrow> walker \<Rightarrow> error + walker" and
  preorder_kids :: "prec_table \<Rightarrow> other_handlers \<Rightarrow> node list \<Rightarrow> walker \<Rightarrow> error + walker" and
  n_expr :: "prec_table \<Rightarrow> other_handlers \<Rightarrow> node \<Rightarrow> walker \<Rightarrow> error + walker" and
  n_return_expr :: "prec_table \<Rightarrow> other_handlers \<Rightarrow> node \<Rightarrow> walker \<Rightarrow> error + walker" and
  n_bin_op :: "prec_table \<Rightarrow> other_handlers \<Rightarrow> node \<Rightarrow> walker \<Rightarrow> error + walker"
where
  "preorder P other node s =
     (case (if kind_of node = ''expr'' \<or> kind_of node = ''return_expr_or_cond''
            then (case n_expr P other node s of Inl e \<Rightarrow> Inl e | Inr s1 \<Rightarrow> Inr (s1, True))
            else if kind_of node = ''return_expr''
            then (case n_return_expr P other node s of
                    Inl e \<Rightarrow> Inl e | Inr s1 \<Rightarrow> Inr (s1, True))
            else if kind_of node = ''bin_op''
            then (case n_bin_op P other node s of Inl e \<Rightarrow> Inl e | Inr s1 \<Rightarrow> Inr (s1, True))
            else other node s) of
        Inl e \<Rightarrow> Inl e
      | Inr (s1, pruned) \<Rightarrow>
          (case (if pruned then Inr s1 else preorder_kids P other (kids node) s1) of
             Inl e \<Rightarrow> Inl e
           | Inr s2 \<Rightarrow> Inr (set_pos_info node s2)))"
| "preorder_kids P other [] s = Inr s"
| "preorder_kids P other (k # ks) s =
     (case preorder P other k s of
        Inl e \<Rightarrow> Inl e
      | Inr s1 \<Rightarrow> preorder_kids P other ks s1)"
| "n_expr P other node s =
     (case child node 0 of
        Inl e \<Rightarrow> Inl e
      | Inr node0 \<Rightarrow>
          let p = prec s
          in case (if startswith (kind_of node0) ''bin_op''
                   then (case child node0 (- 1) of
                           Inl e \<Rightarrow> Inl e | Inr l \<Rightarrow> child l 0)
                   else Inr node0) of
               Inl e \<Rightarrow> Inl e
             | Inr n \<Rightarrow>
                 (case (if kind_of n = ''LOAD_CONST''
                        then (case pattr_of n of
                                Inl e \<Rightarrow> Inl e | Inr v \<Rightarrow> Inr (repr_minus v))
                        else Inr False) of
                    Inl e \<Rightarrow> Inl e
                  | Inr negative \<Rightarrow>
                      let s1 = s\<lparr> prec := (if negative then 6
                                            else case P (kind_of n) of
                                                   None \<Rightarrow> - 2 | Some v \<Rightarrow> v) \<rparr>
                      in case (if p < prec s1
                               then (case preorder P other node0 (write_data [''(''] s1) of
                                       Inl e \<Rightarrow> Inl e
                                     | Inr s2 \<Rightarrow> Inr (write_data ['')''] s2))
                               else preorder P other node0 s1) of
                           Inl e \<Rightarrow> Inl e
                         | Inr s3 \<Rightarrow> Inr (s3\<lparr> prec := p \<rparr>)))"
| "n_return_expr P other node s =
     (case node_len node of
        Inl e \<Rightarrow> Inl e
      | Inr len \<Rightarrow>
          (case child node 0 of
             Inl e \<Rightarrow> if len = 1 then Inl e else n_expr P other node s
           | Inr c \<Rightarrow>
               if len = 1 \<and> kind_of c = ''expr''
               then (case P ''yield'' of
                       None \<Rightarrow> Inl KeyError
                     | Some y \<Rightarrow> n_expr P other c (s\<lparr> prec := y - 1 \<rparr>))
               else n_expr P other node s))"
| "n_bin_op P other node s =
     (case child node 0 of
        Inl e \<Rightarrow> Inl e
      | Inr c0 \<Rightarrow>
          (case preorder P other c0 s of
             Inl e \<Rightarrow> Inl e
           | Inr s1 \<Rightarrow>
               (case child node (- 1) of
                  Inl e \<Rightarrow> Inl e
                | Inr cl \<Rightarrow>
                    (case preorder P other cl (write_data ['' ''] s1) of
                       Inl e \<Rightarrow> Inl e
                     | Inr s2 \<Rightarrow>
                         let s3 = write_data ['' ''] s2;
                             s4 = s3\<lparr> prec := prec s3 - 1 \<rparr>
                         in case child node 1 of
                              Inl e \<Rightarrow> Inl e
                            | Inr c1 \<Rightarrow>
                                (case preorder P other c1 s4 of
                                   Inl e \<Rightarrow> Inl e
                                 | Inr s5 \<Rightarrow> Inr (s5\<lparr> prec := prec s5 + 1 \<rparr>))))))"
  by pat_completeness auto
termination
proof -
  have child_size: "size c < size node" if "child node i = Inr c" for node i c
  proof (cases node)
    case (Tok t)
    with that show ?thesis by simp
  next
    case (Tree k cs)
    with that have "c \<in> set cs"
      by (auto simp: py_index_def Let_def split: if_splits)
    then have "size c \<le> size_list size cs"
      by (simp add: size_list_estimation')
    with Tree show ?thesis by simp
  qed
  have kids_size: "size_list size (kids node) \<le> size node" for node
    by (cases node) simp_all
  show ?thesis
    by (relation "measure (\<lambda>x. case x of
            Inl (Inl (P, other, n, s)) \<Rightarrow> 3 * size n + 2
          | Inl (Inr (P, other, ks, s)) \<Rightarrow> 3 * size_list size ks + 1
          | Inr (Inl (P, other, n, s)) \<Rightarrow> 3 * size n
          | Inr (Inr (Inl (P, other, n, s))) \<Rightarrow> 3 * size n + 1
          | Inr (Inr (Inr (P, other, n, s))) \<Rightarrow> 3 * size n)")
       (auto dest: child_size simp: kids_size le_imp_less_Suc)
qed

declare preorder.simps [simp del] preorder_kids.simps [simp del] n_expr.simps [simp del]
  n_return_expr.simps [simp del] n_bin_op.simps [simp del]

text \<open>
  An example: a table with an entry for \<open>yield\<close>, a handler for the other nodes that
  writes the \<open>pattr\<close> of a token and prunes, and the tree of \<open>return x\<close>.
\<close>

definition ex_PRECEDENCE :: prec_table where
  "ex_PRECEDENCE = [''yield'' \<mapsto> 38, ''bin_op'' \<mapsto> 14]"

fun ex_other :: other_handlers where
  "ex_other (Tok t) s = Inr (write_data [str_of (pattr t)] s, True)"
| "ex_other (Tree k cs) s = Inr (s, False)"

definition ex_return_expr :: node where
  "ex_return_expr =
     Tree ''return_expr'' [Tree ''expr'' [Tok (tok ''LOAD_NAME'' (PStr ''x'') 0)]]"

text \<open>
  Trees without the node shape that \<open>n_return_expr\<close> treats apart: a \<open>return_expr\<close>
  with the single child \<open>expr\<close>.
\<close>

fun no_single_return :: "node \<Rightarrow> bool" where
  "no_single_return (Tok t) = True"
| "no_single_return (Tree k cs) =
     (\<not> (k = ''return_expr'' \<and> length cs = 1 \<and> kind_of (hd cs) = ''expr'')
      \<and> list_all no_single_return cs)"

section \<open>The reduction check\<close>

lemmas iflaststmt_eval =
  iflaststmt_def iflaststmt_rule_check_def iflaststmt_test_check_def
  iflaststmt_jump_check_def reaches_jump_check_def scan_jumps.simps
  err_bind_def py_index_def token_is_def dict_get_def startswith_def
  ex_ast_def ex_tokens_def ex_tokens_chained_def ex_self_def tok_def Let_def

lemma iflaststmt_reaches:
  assumes "reaches_jump_check self rule ast tokens last0 test1 last_i"
  shows "iflaststmt self lhs n rule ast tokens first last0 =
           iflaststmt_jump_check n test1 tokens first last_i"
  using assms
  by (auto simp: reaches_jump_check_def iflaststmt_def iflaststmt_test_check_def err_bind_def
        py_index_def Let_def split: sum.splits node.splits if_splits)

lemma jump_check_inside:
  assumes "attr_of test1 = Inr (PInt t)"
    and "py_index tokens first = Inr t_first"
    and "py_index tokens (if last1 = n then last1 - 1 else last1) = Inr t_last"
    and "off2int_last t_first \<le> t" and "t < off2int_last t_last"
  shows "iflaststmt_jump_check n test1 tokens first last1 = Inr True"
  using assms by (simp add: iflaststmt_jump_check_def err_bind_def Let_def)

lemma ex_rule_check_reaches:
  assumes "iflaststmt_rule_check self rule (ex_ast t) ex_tokens 2 = Inr None"
  shows "reaches_jump_check self rule (ex_ast t) ex_tokens 2
           (Tok (tok ''POP_JUMP_IF_FALSE'' (PInt t) 12)) 2"
  using assms
  by (simp add: reaches_jump_check_def ex_ast_def ex_tokens_def token_is_def err_bind_def
        py_index_def startswith_def tok_def Let_def)

lemma ex_jump_check:
  "iflaststmt_jump_check 3 (Tok (tok ''POP_JUMP_IF_FALSE'' (PInt t) 12)) ex_tokens 0 2
     = Inr (10 \<le> t \<and> t < 30)"
  by (simp add: iflaststmt_jump_check_def ex_tokens_def token_is_def err_bind_def
        py_index_def tok_def Let_def)

text \<open>
  Claim C1, as the code has it. When the rule check of lines 24-54 does not decide the
  call and the test node carries a conditional jump whose target \<open>t\<close> lies in
  \<open>[tokens[first].offset, tokens[last].offset)\<close>, with \<open>last\<close> taken after both
  adjustments (lines 21 and 65), \<open>iflaststmt\<close> returns \<open>True\<close>. For the tokens at offsets
  10, 20, 30 with \<open>first = 0\<close> and \<open>last = 2\<close>, target 25 gives \<open>True\<close>, targets 30 and 5
  give \<open>False\<close>, again when the rule check does not decide.
\<close>

theorem iflaststmt_containment:
  "(\<forall>self lhs n rule ast tokens first last0 test1 last1 t t_first t_last.
      reaches_jump_check self rule ast tokens last0 test1 last1
      \<and> attr_of test1 = Inr (PInt t)
      \<and> py_index tokens first = Inr t_first
      \<and> py_index tokens (if last1 = n then last1 - 1 else last1) = Inr t_last
      \<and> off2int_last t_first \<le> t \<and> t < off2int_last t_last
      \<longrightarrow> iflaststmt self lhs n rule ast tokens first last0 = Inr True)
   \<and> (\<forall>self lhs rule.
        iflaststmt_rule_check self rule (ex_ast 25) ex_tokens 2 = Inr None
        \<longrightarrow> iflaststmt self lhs 3 rule (ex_ast 25) ex_tokens 0 2 = Inr True)
   \<and> (\<forall>self lhs rule.
        iflaststmt_rule_check self rule (ex_ast 30) ex_tokens 2 = Inr None
        \<longrightarrow> iflaststmt self lhs 3 rule (ex_ast 30) ex_tokens 0 2 = Inr False)
   \<and> (\<forall>self lhs rule.
        iflaststmt_rule_check self rule (ex_ast 5) ex_tokens 2 = Inr None
        \<longrightarrow> iflaststmt self lhs 3 rule (ex_ast 5) ex_tokens 0 2 = Inr False)"
proof (intro conjI allI impI)
  fix self lhs n rule ast tokens first last0 test1 last1 t t_first t_last
  assume h: "reaches_jump_check self rule ast tokens last0 test1 last1
      \<and> attr_of test1 = Inr (PInt t)
      \<and> py_index tokens first = Inr t_first
      \<and> py_index tokens (if last1 = n then last1 - 1 else last1) = Inr t_last
      \<and> off2int_last t_first \<le> t \<and> t < off2int_last t_last"
  then have "iflaststmt self lhs n rule ast tokens first last0 =
           iflaststmt_jump_check n test1 tokens first last1"
    by (simp add: iflaststmt_reaches)
  also have "\<dots> = Inr True"
    using h by (intro jump_check_inside[where t = t and t_first = t_first and t_last = t_last]) simp_all
  finally show "iflaststmt self lhs n rule ast tokens first last0 = Inr True" .
next
  fix self lhs rule
  assume "iflaststmt_rule_check self rule (ex_ast 25) ex_tokens 2 = Inr None"
  then show "iflaststmt self lhs 3 rule (ex_ast 25) ex_tokens 0 2 = Inr True"
    by (simp add: iflaststmt_reaches[OF ex_rule_check_reaches] ex_jump_check)
next
  fix self lhs rule
  assume "iflaststmt_rule_check self rule (ex_ast 30) ex_tokens 2 = Inr None"
  then show "iflaststmt self lhs 3 rule (ex_ast 30) ex_tokens 0 2 = Inr False"
    by (simp add: iflaststmt_reaches[OF ex_rule_check_reaches] ex_jump_check)
next
  fix self lhs rule
  assume "iflaststmt_rule_check self rule (ex_ast 5) ex_tokens 2 = Inr None"
  then show "iflaststmt self lhs 3 rule (ex_ast 5) ex_tokens 0 2 = Inr False"
    by (simp add: iflaststmt_reaches[OF ex_rule_check_reaches] ex_jump_check)
qed

theorem iflaststmt_containment_witness:
  "reaches_jump_check (ex_self 25) (''iflaststmt'', [''testexpr'', ''stmts'', ''JUMP_FORWARD''])
     (ex_ast 25) ex_tokens 2 (Tok (tok ''POP_JUMP_IF_FALSE'' (PInt 25) 12)) 2
   \<and> attr_of (Tok (tok ''POP_JUMP_IF_FALSE'' (PInt 25) 12)) = Inr (PInt 25)
   \<and> py_index ex_tokens 0 = Inr (tok ''LOAD_NAME'' (PStr ''a'') 10)
   \<and> py_index ex_tokens (if (2::int) = 3 then 2 - 1 else 2) = Inr (tok ''POP_TOP'' PNone 30)
   \<and> off2int_last (tok ''LOAD_NAME'' (PStr ''a'') 10) \<le> 25
   \<and> 25 < off2int_last (tok ''POP_TOP'' PNone 30)
   \<and> iflaststmt_rule_check (ex_self 25)
        (''iflaststmt'', [''testexpr'', ''stmts'', ''JUMP_FORWARD'']) (ex_ast 25) ex_tokens 2
        = Inr None
   \<and> iflaststmt_rule_check (ex_self 30) (''iflaststmt'', [''testexpr'', ''stmts''])
        (ex_ast 30) ex_tokens 2 = Inr None
   \<and> iflaststmt_rule_check (ex_self 5)
        (''iflaststmt'', [''testexpr'', ''stmts'', ''JUMP_FORWARD'']) (ex_ast 5) ex_tokens 2
        = Inr None
   \<and> iflaststmt (ex_self 25) ''iflaststmt'' 3
        (''iflaststmt'', [''testexpr'', ''stmts'', ''JUMP_FORWARD'']) (ex_ast 25) ex_tokens 0 2
        = Inr True
   \<and> iflaststmt (ex_self 30) ''iflaststmt'' 3 (''iflaststmt'', [''testexpr'', ''stmts''])
        (ex_ast 30) ex_tokens 0 2 = Inr False
   \<and> iflaststmt (ex_self 5) ''iflaststmt'' 3
        (''iflaststmt'', [''testexpr'', ''stmts'', ''JUMP_FORWARD'']) (ex_ast 5) ex_tokens 0 2
        = Inr False"
proof -
  have r: "iflaststmt_rule_check (ex_self 25)
        (''iflaststmt'', [''testexpr'', ''stmts'', ''JUMP_FORWARD'']) (ex_ast 25) ex_tokens 2
        = Inr None"
    by (simp add: iflaststmt_rule_check_def)
  have r30: "iflaststmt_rule_check (ex_self 30) (''iflaststmt'', [''testexpr'', ''stmts''])
        (ex_ast 30) ex_tokens 2 = Inr None"
    by (simp add: iflaststmt_rule_check_def ex_self_def ex_ast_def ex_tokens_def tok_def
          err_bind_def py_index_def dict_get_def Let_def)
  have r5: "iflaststmt_rule_check (ex_self 5)
        (''iflaststmt'', [''testexpr'', ''stmts'', ''JUMP_FORWARD'']) (ex_ast 5) ex_tokens 2
        = Inr None"
    by (simp add: iflaststmt_rule_check_def)
  have h: "reaches_jump_check (ex_self 25)
     (''iflaststmt'', [''testexpr'', ''stmts'', ''JUMP_FORWARD''])
     (ex_ast 25) ex_tokens 2 (Tok (tok ''POP_JUMP_IF_FALSE'' (PInt 25) 12)) 2"
    using r by (simp add: reaches_jump_check_def ex_ast_def ex_tokens_def token_is_def
        err_bind_def py_index_def startswith_def tok_def Let_def)
  have h2: "attr_of (Tok (tok ''POP_JUMP_IF_FALSE'' (PInt 25) 12)) = Inr (PInt 25)"
    by (simp add: tok_def)
  have h3: "py_index ex_tokens 0 = Inr (tok ''LOAD_NAME'' (PStr ''a'') 10)"
    by (simp add: py_index_def ex_tokens_def)
  have h4: "py_index ex_tokens (if (2::int) = 3 then 2 - 1 else 2) = Inr (tok ''POP_TOP'' PNone 30)"
    by (simp add: py_index_def ex_tokens_def)
  have h5: "off2int_last (tok ''LOAD_NAME'' (PStr ''a'') 10) \<le> 25"
    and h6: "25 < off2int_last (tok ''POP_TOP'' PNone 30)"
    by (simp_all add: tok_def)
  note T = iflaststmt_containment
  have g: "iflaststmt (ex_self 25) ''iflaststmt'' 3
        (''iflaststmt'', [''testexpr'', ''stmts'', ''JUMP_FORWARD'']) (ex_ast 25) ex_tokens 0 2
        = Inr True"
    by (rule T[THEN conjunct1, rule_format,
          where t = 25 and ?test1.0 = "Tok (tok ''POP_JUMP_IF_FALSE'' (PInt 25) 12)"
            and ?last1.0 = 2 and t_first = "tok ''LOAD_NAME'' (PStr ''a'') 10"
            and t_last = "tok ''POP_TOP'' PNone 30"])
       (use h h2 h3 h4 h5 h6 in simp)
  have g30: "iflaststmt (ex_self 30) ''iflaststmt'' 3
        (''iflaststmt'', [''testexpr'', ''stmts'']) (ex_ast 30) ex_tokens 0 2 = Inr False"
    by (rule T[THEN conjunct2, THEN conjunct2, THEN conjunct1, rule_format, OF r30])
  have g5: "iflaststmt (ex_self 5) ''iflaststmt'' 3
        (''iflaststmt'', [''testexpr'', ''stmts'', ''JUMP_FORWARD'']) (ex_ast 5) ex_tokens 0 2
        = Inr False"
    by (rule T[THEN conjunct2, THEN conjunct2, THEN conjunct2, rule_format, OF r5])
  show ?thesis using r r30 r5 h h2 h3 h4 h5 h6 g g30 g5 by (intro conjI)
qed

text \<open>
  Claim C1 as stated fails: with the rule \<open>iflaststmt ::= testexpr stmts\<close>, the jump at
  offset 12 an absolute jump to 25 and a second jump to 25 in the body, the rule check
  returns \<open>False\<close> although 25 lies in \<open>[10, 30)\<close>.
\<close>

theorem iflaststmt_containment_counterexample:
  "off2int_last (ex_tokens ! 0) \<le> 25 \<and> 25 < off2int_last (ex_tokens ! 2)
   \<and> child (ex_ast 25) 0
       = Inr (Tree ''testexpr''
               [Tree ''testfalse''
                  [Tree ''expr'' [Tok (tok ''LOAD_NAME'' (PStr ''a'') 10)],
                   Tok (tok ''POP_JUMP_IF_FALSE'' (PInt 25) 12)]])
   \<and> iflaststmt (ex_self 25) ''iflaststmt'' 3 (''iflaststmt'', [''testexpr'', ''stmts''])
        (ex_ast 25) ex_tokens 0 2 = Inr False"
  by (simp add: iflaststmt_eval)


lemma scan_jumps_found:
  assumes "i \<le> j" and "j < length is"
    and "\<forall>k. i \<le> k \<and> k \<le> j \<longrightarrow> offset (is ! k) < t"
    and "optype (is ! j) = ''jabs'' \<or> optype (is ! j) = ''jrel''"
    and "argval (is ! j) = t"
  shows "scan_jumps is (int i) t = Inr False"
  using assms
proof (induction "j - i" arbitrary: i)
  case 0
  then have "i = j" by simp
  with 0 show ?case
    by (subst scan_jumps.simps) (auto simp: py_index_def Let_def)
next
  case (Suc d)
  then have lt: "i < j" by simp
  have ih: "scan_jumps is (int (Suc i)) t = Inr False"
    using Suc by (intro Suc.hyps(1)) auto
  have "offset (is ! i) < t" using Suc.prems lt by auto
  with lt Suc.prems ih show ?case
    by (subst scan_jumps.simps) (auto simp: py_index_def Let_def add.commute)
qed

lemma scan_jumps_reached:
  assumes "i \<le> j" and "j < length is"
    and "\<forall>k. i \<le> k \<and> k < j \<longrightarrow>
           offset (is ! k) < t
           \<and> \<not> ((optype (is ! k) = ''jabs'' \<or> optype (is ! k) = ''jrel'') \<and> argval (is ! k) = t)"
    and "t \<le> offset (is ! j)"
  shows "scan_jumps is (int i) t = Inr True"
  using assms
proof (induction "j - i" arbitrary: i)
  case 0
  then have "i = j" by simp
  with 0 show ?case
    by (subst scan_jumps.simps) (auto simp: py_index_def Let_def)
next
  case (Suc d)
  then have lt: "i < j" by simp
  have ih: "scan_jumps is (int (Suc i)) t = Inr True"
    using Suc by (intro Suc.hyps(1)) auto
  have "offset (is ! i) < t
        \<and> \<not> ((optype (is ! i) = ''jabs'' \<or> optype (is ! i) = ''jrel'') \<and> argval (is ! i) = t)"
    using Suc.prems lt by auto
  with lt Suc.prems ih show ?case
    by (subst scan_jumps.simps) (auto simp: py_index_def Let_def add.commute)
qed


text \<open>
  Claim C2, as the code has it. For the rule \<open>iflaststmt ::= testexpr stmts\<close> whose
  instruction before the body is an absolute jump \<open>jmp\<close>: when the target of \<open>jmp\<close> is
  the offset of \<open>tokens[last]\<close> the rule check decides nothing and the call continues
  with the checks on the test node; when it differs, the instructions from the body start
  \<open>i\<close> are scanned while their offset is below the target, and the call returns \<open>False\<close>
  (accept) when one of them is a jump to the same target, \<open>True\<close> (reject) when the scan
  reaches an instruction at or after the target without finding one.
\<close>

theorem iflaststmt_rule_check_second_jump:
  assumes "child ast 0 = Inr testexpr"
    and "token_is tokens last0 ''RETURN_LAST'' = Inr rl"
    and "last1 = (if rl then last0 - 1 else last0)"
    and "child ast 1 = Inr stmts"
    and "off2int (first_child stmts) False = Inr stmt_offset"
    and "offset2inst_index self stmt_offset = Some (int i)"
    and "py_index (insts self) (int i - 1) = Inr jmp"
    and "optype jmp = ''jabs''"
    and "py_index tokens last1 = Inr t_last"
  shows "(argval jmp = off2int_first t_last \<longrightarrow>
            iflaststmt self lhs n (''iflaststmt'', [''testexpr'', ''stmts'']) ast tokens first last0
              = iflaststmt_test_check n (''iflaststmt'', [''testexpr'', ''stmts'']) testexpr
                  tokens first last1)
       \<and> (argval jmp \<noteq> off2int_first t_last
            \<and> (\<exists>j. i \<le> j \<and> j < length (insts self)
                  \<and> (\<forall>k. i \<le> k \<and> k \<le> j \<longrightarrow> offset (insts self ! k) < argval jmp)
                  \<and> (optype (insts self ! j) = ''jabs'' \<or> optype (insts self ! j) = ''jrel'')
                  \<and> argval (insts self ! j) = argval jmp) \<longrightarrow>
            iflaststmt self lhs n (''iflaststmt'', [''testexpr'', ''stmts'']) ast tokens first last0
              = Inr False)
       \<and> (argval jmp \<noteq> off2int_first t_last
            \<and> (\<exists>j. i \<le> j \<and> j < length (insts self)
                  \<and> (\<forall>k. i \<le> k \<and> k < j \<longrightarrow>
                        offset (insts self ! k) < argval jmp
                        \<and> \<not> ((optype (insts self ! k) = ''jabs''
                                \<or> optype (insts self ! k) = ''jrel'')
                               \<and> argval (insts self ! k) = argval jmp))
                  \<and> argval jmp \<le> offset (insts self ! j)) \<longrightarrow>
            iflaststmt self lhs n (''iflaststmt'', [''testexpr'', ''stmts'']) ast tokens first last0
              = Inr True)"
proof (intro conjI impI)
  assume "argval jmp = off2int_first t_last"
  with assms
  show "iflaststmt self lhs n (''iflaststmt'', [''testexpr'', ''stmts'']) ast tokens first last0
          = iflaststmt_test_check n (''iflaststmt'', [''testexpr'', ''stmts'']) testexpr
              tokens first last1"
    by (simp add: iflaststmt_def iflaststmt_rule_check_def err_bind_def dict_get_def Let_def)
next
  assume h: "argval jmp \<noteq> off2int_first t_last
            \<and> (\<exists>j. i \<le> j \<and> j < length (insts self)
                  \<and> (\<forall>k. i \<le> k \<and> k \<le> j \<longrightarrow> offset (insts self ! k) < argval jmp)
                  \<and> (optype (insts self ! j) = ''jabs'' \<or> optype (insts self ! j) = ''jrel'')
                  \<and> argval (insts self ! j) = argval jmp)"
  then obtain j where j: "i \<le> j" "j < length (insts self)"
      "\<forall>k. i \<le> k \<and> k \<le> j \<longrightarrow> offset (insts self ! k) < argval jmp"
      "optype (insts self ! j) = ''jabs'' \<or> optype (insts self ! j) = ''jrel''"
      "argval (insts self ! j) = argval jmp"
    by blast
  have "scan_jumps (insts self) (int i) (argval jmp) = Inr False"
    by (rule scan_jumps_found[OF j])
  with assms h
  show "iflaststmt self lhs n (''iflaststmt'', [''testexpr'', ''stmts'']) ast tokens first last0
          = Inr False"
    by (simp add: iflaststmt_def iflaststmt_rule_check_def err_bind_def dict_get_def Let_def)
next
  assume h: "argval jmp \<noteq> off2int_first t_last
            \<and> (\<exists>j. i \<le> j \<and> j < length (insts self)
                  \<and> (\<forall>k. i \<le> k \<and> k < j \<longrightarrow>
                        offset (insts self ! k) < argval jmp
                        \<and> \<not> ((optype (insts self ! k) = ''jabs''
                                \<or> optype (insts self ! k) = ''jrel'')
                               \<and> argval (insts self ! k) = argval jmp))
                  \<and> argval jmp \<le> offset (insts self ! j))"
  then obtain j where j: "i \<le> j" "j < length (insts self)"
      "\<forall>k. i \<le> k \<and> k < j \<longrightarrow>
             offset (insts self ! k) < argval jmp
             \<and> \<not> ((optype (insts self ! k) = ''jabs'' \<or> optype (insts self ! k) = ''jrel'')
                    \<and> argval (insts self ! k) = argval jmp)"
      "argval jmp \<le> offset (insts self ! j)"
    by blast
  have "scan_jumps (insts self) (int i) (argval jmp) = Inr True"
    by (rule scan_jumps_reached[OF j])
  with assms h
  show "iflaststmt self lhs n (''iflaststmt'', [''testexpr'', ''stmts'']) ast tokens first last0
          = Inr True"
    by (simp add: iflaststmt_def iflaststmt_rule_check_def err_bind_def dict_get_def Let_def)
qed

lemma ex_setup_ast:
  "child (ex_ast t) 0
     = Inr (Tree ''testexpr''
             [Tree ''testfalse''
                [Tree ''expr'' [Tok (tok ''LOAD_NAME'' (PStr ''a'') 10)],
                 Tok (tok ''POP_JUMP_IF_FALSE'' (PInt t) 12)]])"
  "child (ex_ast t) 1 = Inr (Tree ''stmts'' [Tok (tok ''LOAD_NAME'' (PStr ''b'') 20)])"
  by (simp_all add: ex_ast_def py_index_def)

lemma ex_setup_tokens:
  "token_is ex_tokens 2 ''RETURN_LAST'' = Inr False"
  "off2int (first_child (Tree ''stmts'' [Tok (tok ''LOAD_NAME'' (PStr ''b'') 20)])) False = Inr 20"
  "py_index ex_tokens (if False then 2 - 1 else 2) = Inr (tok ''POP_TOP'' PNone 30)"
  by (simp_all add: ex_tokens_def tok_def py_index_def token_is_def err_bind_def)

lemma ex_setup_self:
  "offset2inst_index (ex_self t) 20 = Some (int 1)"
  "py_index (insts (ex_self t)) (int 1 - 1) = Inr \<lparr> offset = 12, optype = ''jabs'', argval = t \<rparr>"
  "optype \<lparr> offset = 12, optype = ''jabs'', argval = t \<rparr> = ''jabs''"
  by (simp_all add: ex_self_def py_index_def)

theorem iflaststmt_rule_check_second_jump_witness:
  "iflaststmt (ex_self 30) ''iflaststmt'' 3 (''iflaststmt'', [''testexpr'', ''stmts''])
       (ex_ast 30) ex_tokens 0 2
     = iflaststmt_test_check 3 (''iflaststmt'', [''testexpr'', ''stmts''])
         (Tree ''testexpr''
            [Tree ''testfalse''
               [Tree ''expr'' [Tok (tok ''LOAD_NAME'' (PStr ''a'') 10)],
                Tok (tok ''POP_JUMP_IF_FALSE'' (PInt 30) 12)]])
         ex_tokens 0 2
   \<and> iflaststmt (ex_self 25) ''iflaststmt'' 3 (''iflaststmt'', [''testexpr'', ''stmts''])
       (ex_ast 25) ex_tokens 0 2 = Inr False
   \<and> iflaststmt (ex_self 5) ''iflaststmt'' 3 (''iflaststmt'', [''testexpr'', ''stmts''])
       (ex_ast 5) ex_tokens 0 2 = Inr True"
proof (intro conjI)
  note T30 = iflaststmt_rule_check_second_jump[OF ex_setup_ast(1)[of 30] ex_setup_tokens(1) refl
      ex_setup_ast(2)[of 30] ex_setup_tokens(2) ex_setup_self[of 30] ex_setup_tokens(3),
      where n = 3 and first = 0 and lhs = "''iflaststmt''"]
  note T25 = iflaststmt_rule_check_second_jump[OF ex_setup_ast(1)[of 25] ex_setup_tokens(1) refl
      ex_setup_ast(2)[of 25] ex_setup_tokens(2) ex_setup_self[of 25] ex_setup_tokens(3),
      where n = 3 and first = 0 and lhs = "''iflaststmt''"]
  note T5 = iflaststmt_rule_check_second_jump[OF ex_setup_ast(1)[of 5] ex_setup_tokens(1) refl
      ex_setup_ast(2)[of 5] ex_setup_tokens(2) ex_setup_self[of 5] ex_setup_tokens(3),
      where n = 3 and first = 0 and lhs = "''iflaststmt''"]
  have eq: "argval \<lparr> offset = 12, optype = ''jabs'', argval = 30 \<rparr>
              = off2int_first (tok ''POP_TOP'' PNone 30)"
    by (simp add: tok_def)
  show "iflaststmt (ex_self 30) ''iflaststmt'' 3 (''iflaststmt'', [''testexpr'', ''stmts''])
       (ex_ast 30) ex_tokens 0 2
     = iflaststmt_test_check 3 (''iflaststmt'', [''testexpr'', ''stmts''])
         (Tree ''testexpr''
            [Tree ''testfalse''
               [Tree ''expr'' [Tok (tok ''LOAD_NAME'' (PStr ''a'') 10)],
                Tok (tok ''POP_JUMP_IF_FALSE'' (PInt 30) 12)]])
         ex_tokens 0 2"
    using T30[THEN conjunct1, rule_format, OF eq] by simp
  have found: "argval \<lparr> offset = 12, optype = ''jabs'', argval = 25 \<rparr>
              \<noteq> off2int_first (tok ''POP_TOP'' PNone 30)
        \<and> (\<exists>j. 1 \<le> j \<and> j < length (insts (ex_self 25))
        \<and> (\<forall>k. 1 \<le> k \<and> k \<le> j \<longrightarrow> offset (insts (ex_self 25) ! k)
               < argval \<lparr> offset = 12, optype = ''jabs'', argval = 25 \<rparr>)
        \<and> (optype (insts (ex_self 25) ! j) = ''jabs'' \<or> optype (insts (ex_self 25) ! j) = ''jrel'')
        \<and> argval (insts (ex_self 25) ! j)
            = argval \<lparr> offset = 12, optype = ''jabs'', argval = 25 \<rparr>)"
    by (auto simp: ex_self_def tok_def le_antisym intro!: exI[of _ 1])
  show "iflaststmt (ex_self 25) ''iflaststmt'' 3 (''iflaststmt'', [''testexpr'', ''stmts''])
       (ex_ast 25) ex_tokens 0 2 = Inr False"
    using T25[THEN conjunct2, THEN conjunct1, rule_format, OF found] by simp
  have reached: "argval \<lparr> offset = 12, optype = ''jabs'', argval = 5 \<rparr>
              \<noteq> off2int_first (tok ''POP_TOP'' PNone 30)
        \<and> (\<exists>j. 1 \<le> j \<and> j < length (insts (ex_self 5))
        \<and> (\<forall>k. 1 \<le> k \<and> k < j \<longrightarrow>
              offset (insts (ex_self 5) ! k) < argval \<lparr> offset = 12, optype = ''jabs'', argval = 5 \<rparr>
              \<and> \<not> ((optype (insts (ex_self 5) ! k) = ''jabs''
                      \<or> optype (insts (ex_self 5) ! k) = ''jrel'')
                     \<and> argval (insts (ex_self 5) ! k)
                         = argval \<lparr> offset = 12, optype = ''jabs'', argval = 5 \<rparr>))
        \<and> argval \<lparr> offset = 12, optype = ''jabs'', argval = 5 \<rparr>
            \<le> offset (insts (ex_self 5) ! j))"
    by (auto simp: ex_self_def tok_def intro!: exI[of _ 1])
  show "iflaststmt (ex_self 5) ''iflaststmt'' 3 (''iflaststmt'', [''testexpr'', ''stmts''])
       (ex_ast 5) ex_tokens 0 2 = Inr True"
    using T5[THEN conjunct2, THEN conjunct2, rule_format, OF reached] by simp
qed

text \<open>
  Claim C2 as stated fails: the results are the other way round. With a second jump to
  the target 25 at offset 20, before the target, the call returns \<open>False\<close>; with the
  target 5 no instruction from the body start lies before it, no second jump is found,
  and the call returns \<open>True\<close>.
\<close>

theorem iflaststmt_rule_check_second_jump_counterexample:
  "py_index (insts (ex_self 25)) 0 = Inr \<lparr> offset = 12, optype = ''jabs'', argval = 25 \<rparr>
   \<and> off2int_first (ex_tokens ! 2) \<noteq> 25
   \<and> offset (insts (ex_self 25) ! 1) < 25
   \<and> optype (insts (ex_self 25) ! 1) = ''jrel''
   \<and> argval (insts (ex_self 25) ! 1) = 25
   \<and> iflaststmt (ex_self 25) ''iflaststmt'' 3 (''iflaststmt'', [''testexpr'', ''stmts''])
        (ex_ast 25) ex_tokens 0 2 = Inr False
   \<and> off2int_first (ex_tokens ! 2) \<noteq> 5
   \<and> \<not> offset (insts (ex_self 5) ! 1) < 5
   \<and> iflaststmt (ex_self 5) ''iflaststmt'' 3 (''iflaststmt'', [''testexpr'', ''stmts''])
        (ex_ast 5) ex_tokens 0 2 = Inr True"
  by (simp add: iflaststmt_eval)

text \<open>
  Claim C3, as the code has it. When the call reaches line 90 (the containment test and
  the two loop checks did not reject) with \<open>first > 0\<close> and \<open>tokens[first - 1]\<close> a
  \<open>POP_JUMP_IF_FALSE\<close>, it returns \<open>True\<close> (reject) exactly when the \<open>attr\<close> of that token
  equals the jump target of the candidate, and \<open>False\<close> (accept) otherwise.
\<close>

theorem iflaststmt_preceding_jump:
  assumes "reaches_jump_check self rule ast tokens last0 test1 last1"
    and "attr_of test1 = Inr (PInt t)"
    and "last2 = (if last1 = n then last1 - 1 else last1)"
    and "py_index tokens first = Inr t_first"
    and "py_index tokens last2 = Inr t_last"
    and "\<not> (off2int_last t_first \<le> t \<and> t < off2int_last t_last)"
    and "last2 + 1 < n \<longrightarrow>
           (\<exists>jb. token_is tokens (last2 - 1) ''JUMP_BACK'' = Inr jb
              \<and> (if jb then \<not> t > off2int_last t_first
                  else (\<exists>cfl. token_is tokens (last2 + 1) ''COME_FROM_LOOP'' = Inr cfl
                          \<and> (cfl \<longrightarrow> kind t_last = ''BREAK_LOOP''))))"
    and "0 < first"
    and "py_index tokens (first - 1) = Inr t_prev"
    and "kind t_prev = ''POP_JUMP_IF_FALSE''"
  shows "iflaststmt self lhs n rule ast tokens first last0 = Inr (attr t_prev = PInt t)"
proof -
  have "iflaststmt self lhs n rule ast tokens first last0 =
           iflaststmt_jump_check n test1 tokens first last1"
    using assms(1) by (rule iflaststmt_reaches)
  also have "\<dots> = Inr (attr t_prev = PInt t)"
    using assms(2-)
    by (auto simp: iflaststmt_jump_check_def err_bind_def token_is_def Let_def
          split: if_splits)
  finally show ?thesis .
qed

lemma ex_chained_reaches:
  "reaches_jump_check (ex_self t) (''iflaststmt'', [''testexpr'', ''stmts'', ''JUMP_FORWARD''])
     (ex_ast t) (ex_tokens_chained t') 3 (Tok (tok ''POP_JUMP_IF_FALSE'' (PInt t) 12)) 3"
  by (simp add: reaches_jump_check_def iflaststmt_rule_check_def ex_ast_def ex_tokens_def
        ex_tokens_chained_def token_is_def err_bind_def py_index_def startswith_def tok_def
        Let_def)

theorem iflaststmt_preceding_jump_witness:
  "iflaststmt (ex_self 40) ''iflaststmt'' 4
       (''iflaststmt'', [''testexpr'', ''stmts'', ''JUMP_FORWARD''])
       (ex_ast 40) (ex_tokens_chained 40) 1 3 = Inr True
   \<and> iflaststmt (ex_self 40) ''iflaststmt'' 4
       (''iflaststmt'', [''testexpr'', ''stmts'', ''JUMP_FORWARD''])
       (ex_ast 40) (ex_tokens_chained 50) 1 3 = Inr False"
proof -
  have a: "attr_of (Tok (tok ''POP_JUMP_IF_FALSE'' (PInt 40) 12)) = Inr (PInt 40)"
    by (simp add: tok_def)
  have l: "(3::int) = (if (3::int) = 4 then 3 - 1 else 3)" by simp
  have f: "py_index (ex_tokens_chained t') 1 = Inr (tok ''LOAD_NAME'' (PStr ''a'') 10)"
    and e: "py_index (ex_tokens_chained t') 3 = Inr (tok ''POP_TOP'' PNone 30)"
    and p: "py_index (ex_tokens_chained t') (1 - 1) = Inr (tok ''POP_JUMP_IF_FALSE'' (PInt t') 8)"
    for t'
    by (simp_all add: ex_tokens_chained_def ex_tokens_def py_index_def)
  have c: "\<not> (off2int_last (tok ''LOAD_NAME'' (PStr ''a'') 10) \<le> 40
              \<and> 40 < off2int_last (tok ''POP_TOP'' PNone 30))"
    by (simp add: tok_def)
  have lp: "(3::int) + 1 < 4 \<longrightarrow>
           (\<exists>jb. token_is (ex_tokens_chained t') (3 - 1) ''JUMP_BACK'' = Inr jb
              \<and> (if jb then \<not> 40 > off2int_last (tok ''LOAD_NAME'' (PStr ''a'') 10)
                  else (\<exists>cfl. token_is (ex_tokens_chained t') (3 + 1) ''COME_FROM_LOOP'' = Inr cfl
                          \<and> (cfl \<longrightarrow> kind (tok ''POP_TOP'' PNone 30) = ''BREAK_LOOP''))))"
    for t'
    by simp
  have k: "kind (tok ''POP_JUMP_IF_FALSE'' (PInt t') 8) = ''POP_JUMP_IF_FALSE''" for t'
    by (simp add: tok_def)
  have "(0::int) < 1" by simp
  then have T: "iflaststmt (ex_self 40) lhs 4
       (''iflaststmt'', [''testexpr'', ''stmts'', ''JUMP_FORWARD''])
       (ex_ast 40) (ex_tokens_chained t') 1 3
         = Inr (attr (tok ''POP_JUMP_IF_FALSE'' (PInt t') 8) = PInt 40)" for t' lhs
    by (rule iflaststmt_preceding_jump[OF ex_chained_reaches[of 40 t'] a l f[of t'] e[of t']
          c lp[of t'] _ p[of t'] k[of t']])
  show ?thesis
    using T[of "''iflaststmt''" 40] T[of "''iflaststmt''" 50] by (simp add: tok_def)
qed

text \<open>
  Claim C3 as stated fails: the preceding \<open>POP_JUMP_IF_FALSE\<close> and the candidate both
  jump to 40, and the call returns \<open>True\<close> (reject), not \<open>False\<close>.
\<close>

theorem iflaststmt_preceding_jump_counterexample:
  "kind (ex_tokens_chained 40 ! 0) = ''POP_JUMP_IF_FALSE''
   \<and> attr (ex_tokens_chained 40 ! 0) = PInt 40
   \<and> attr_of (Tok (tok ''POP_JUMP_IF_FALSE'' (PInt 40) 12)) = Inr (PInt 40)
   \<and> reaches_jump_check (ex_self 40)
        (''iflaststmt'', [''testexpr'', ''stmts'', ''JUMP_FORWARD''])
        (ex_ast 40) (ex_tokens_chained 40) 3 (Tok (tok ''POP_JUMP_IF_FALSE'' (PInt 40) 12)) 3
   \<and> iflaststmt (ex_self 40) ''iflaststmt'' 4
        (''iflaststmt'', [''testexpr'', ''stmts'', ''JUMP_FORWARD''])
        (ex_ast 40) (ex_tokens_chained 40) 1 3 = Inr True"
  by (simp add: iflaststmt_eval)

section \<open>Newline coalescing\<close>

text \<open>
  Claim C4, as the code has it. In the fresh buffer of \<open>traverse\<close>, with no pending
  newline, the writes \<open>"\n\n"\<close>, \<open>"a"\<close>, \<open>"\n"\<close>, \<open>"\n"\<close> and the final flush of the pending
  newlines give exactly \<open>"\n\na\n"\<close>: the two trailing writes of one newline coalesce into
  one newline, the longest run asked for by a single one of them. The caller's state is
  unchanged.
\<close>

theorem traverse_four_writes:
  "traverse four_writes u ind lam s = Inr ([NL, NL, CHR ''a'', NL], s)"
  by (cases ind)
     (simp_all add: traverse_def traverse_scope_def four_writes_def write_data_def f_write_def Let_def)

text \<open>
  Claim C4 as stated fails: the text is \<open>"\n\na\n"\<close>, not \<open>"\n\na\n\n"\<close>.
\<close>

theorem traverse_four_writes_counterexample:
  "traverse four_writes () None False (SourceWalker_init [3, 8] [])
     = Inr ([NL, NL, CHR ''a'', NL], SourceWalker_init [3, 8] [])
   \<and> traverse four_writes () None False (SourceWalker_init [3, 8] [])
     \<noteq> Inr ([NL, NL, CHR ''a'', NL, NL], SourceWalker_init [3, 8] [])"
  by (simp add: traverse_def traverse_scope_def four_writes_def write_data_def f_write_def SourceWalker_init_def
        Let_def)

section \<open>Writing text\<close>

lemma f_write_Nil [simp]: "f_write [] s = s"
  by (simp add: f_write_def)

lemma newline_run_hd: "out \<noteq> [] \<Longrightarrow> hd out \<noteq> NL \<Longrightarrow> newline_run out = 0"
  by (cases out) simp_all

lemma newline_run_last: "out \<noteq> [] \<Longrightarrow> last out \<noteq> NL \<Longrightarrow> newline_run (rev out) = 0"
  by (cases out rule: rev_cases) simp_all

lemma write_data_text:
  assumes "concat data \<noteq> []" and "hd (concat data) \<noteq> NL" and "last (concat data) \<noteq> NL"
  shows "write_data data s = f_write (concat data) (flush_newlines s)"
proof -
  define out where "out = concat data"
  have o: "out \<noteq> []" "hd out \<noteq> NL" "last out \<noteq> NL"
    using assms by (simp_all add: out_def)
  have r: "newline_run out = 0" "newline_run (rev out) = 0"
    using o by (simp_all add: newline_run_hd newline_run_last)
  have d: "data \<noteq> []" "data \<noteq> [[]]"
    using assms(1) by auto
  show ?thesis
    unfolding write_data_def Let_def out_def[symmetric]
    using d o r
    by (cases "pending_newlines s = 0") (simp_all add: flush_newlines_def f_write_def)
qed

lemma ex_doc_nonempty: "ex_doc \<noteq> []"
  by (simp add: ex_doc_def)

lemma ex_quote: "docstring_quote ex_doc = [DQ, DQ, DQ]"
  by code_simp

lemma ex_unescape: "docstring_unescape ex_doc = ex_doc"
  by code_simp

lemma ex_raw: "\<not> docstring_raw ex_doc"
  by code_simp

lemma ex_lines:
  "split_nl (docstring_escape [DQ, DQ, DQ] ex_doc) = [''He said '' @ [DQ] @ ''hi'' @ [DQ], []]"
  by code_simp


lemma println_text:
  assumes "concat data \<noteq> []" and "hd (concat data) \<noteq> NL" and "last (concat data) \<noteq> NL"
  shows "println data s = (f_write (concat data) (flush_newlines s))\<lparr> pending_newlines := 1 \<rparr>"
proof -
  from assms(1) have d: "data \<noteq> []" "data \<noteq> [[]]" by auto
  then show ?thesis
    by (simp add: println_def write_data_text[OF assms] flush_newlines_def f_write_def)
qed

lemma n_docstring_ex_doc:
  assumes "indent (params s) = replicate k (CHR '' '')"
  shows "docstring_quote ex_doc = [DQ, DQ, DQ]
       \<and> n_docstring ex_docstring s
           = Inr (s\<lparr> params := (params s)\<lparr> f_buffer :=
                        f_buffer (params s) @ replicate (pending_newlines s) NL
                        @ replicate k (CHR '' '')
                        @ [DQ, DQ, DQ] @ ''He said '' @ [DQ] @ ''hi'' @ [DQ]
                        @ [NL] @ [DQ, DQ, DQ] \<rparr>,
                    pending_newlines := 1 \<rparr>)"
proof
  show "docstring_quote ex_doc = [DQ, DQ, DQ]" by (rule ex_quote)
next
  let ?s1 = "write_data [replicate k (CHR '' '')] s"
  have s1: "f_write [DQ, DQ, DQ] (flush_newlines ?s1)
              = s\<lparr> params := (params s)\<lparr> f_buffer :=
                        f_buffer (params s) @ replicate (pending_newlines s) NL
                        @ replicate k (CHR '' '') @ [DQ, DQ, DQ] \<rparr>,
                    pending_newlines := 0 \<rparr>"
  proof (cases k)
    case 0
    then show ?thesis
      by (simp add: write_data_def flush_newlines_def f_write_def)
  next
    case (Suc m)
    have "?s1 = f_write (replicate k (CHR '' '')) (flush_newlines s)"
      using write_data_text[of "[replicate k (CHR '' '')]" s] Suc by simp
    then show ?thesis
      by (simp add: flush_newlines_def f_write_def)
  qed
  have s3: "write_data [[DQ, DQ, DQ]] ?s1 = f_write [DQ, DQ, DQ] (flush_newlines ?s1)"
    by (intro write_data_text[where data = "[[DQ, DQ, DQ]]", simplified]) 
  have "n_docstring ex_docstring s
          = Inr (println [[], [DQ, DQ, DQ]]
                  (println [''He said '' @ [DQ] @ ''hi'' @ [DQ]]
                    (write_data [[DQ, DQ, DQ]] ?s1)))"
    using assms
    by (simp add: n_docstring_def ex_docstring_def tok_def err_bind_def py_index_def
          ex_quote ex_unescape ex_raw ex_lines docstring_middle_def ex_doc_nonempty Let_def)
  also have "\<dots> = Inr (s\<lparr> params := (params s)\<lparr> f_buffer :=
                        f_buffer (params s) @ replicate (pending_newlines s) NL
                        @ replicate k (CHR '' '')
                        @ [DQ, DQ, DQ] @ ''He said '' @ [DQ] @ ''hi'' @ [DQ]
                        @ [NL] @ [DQ, DQ, DQ] \<rparr>,
                    pending_newlines := 1 \<rparr>)"
    unfolding s3 s1
    by (simp add: println_text flush_newlines_def f_write_def)
  finally show "n_docstring ex_docstring s
           = Inr (s\<lparr> params := (params s)\<lparr> f_buffer :=
                        f_buffer (params s) @ replicate (pending_newlines s) NL
                        @ replicate k (CHR '' '')
                        @ [DQ, DQ, DQ] @ ''He said '' @ [DQ] @ ''hi'' @ [DQ]
                        @ [NL] @ [DQ, DQ, DQ] \<rparr>,
                    pending_newlines := 1 \<rparr>)" .
qed


text \<open>
  Claim C5, as the code has it. For the docstring \<open>He said "hi"\<close> followed by a
  newline, in a scope whose indentation is \<open>k\<close> spaces, the renderer keeps three double
  quotes as the delimiter (the content has no run of three double quotes), escapes no
  quote (the last character of the content is the newline, not a quote), and writes the
  newline itself between the content and the closing quotes. One newline stays pending.
\<close>

theorem n_docstring_example:
  assumes "indent (params s) = replicate k (CHR '' '')"
  shows "docstring_quote ex_doc = [DQ, DQ, DQ]
       \<and> n_docstring ex_docstring s
           = Inr (s\<lparr> params := (params s)\<lparr> f_buffer :=
                        f_buffer (params s) @ replicate (pending_newlines s) NL
                        @ replicate k (CHR '' '')
                        @ [DQ, DQ, DQ] @ ''He said '' @ [DQ] @ ''hi'' @ [DQ]
                        @ [NL] @ [DQ, DQ, DQ] \<rparr>,
                    pending_newlines := 1 \<rparr>)"
  using assms by (rule n_docstring_ex_doc)

theorem n_docstring_example_witness:
  "indent (params (SourceWalker_init [3, 8] [])) = replicate 0 (CHR '' '')
   \<and> docstring_quote ex_doc = [DQ, DQ, DQ]
   \<and> n_docstring ex_docstring (SourceWalker_init [3, 8] [])
       = Inr ((SourceWalker_init [3, 8]
                ([DQ, DQ, DQ] @ ''He said '' @ [DQ] @ ''hi'' @ [DQ] @ [NL] @ [DQ, DQ, DQ]))
              \<lparr> pending_newlines := 1 \<rparr>)"
proof -
  have h: "indent (params (SourceWalker_init [3, 8] [])) = replicate 0 (CHR '' '')"
    by (simp add: SourceWalker_init_def)
  from n_docstring_example[OF h] h show ?thesis
    by (simp add: SourceWalker_init_def)
qed

text \<open>
  Claim C5 as stated fails: the delimiter chosen for this docstring is three double
  quotes, not three single quotes.
\<close>

theorem n_docstring_example_counterexample:
  "docstring_quote ex_doc \<noteq> [SQ, SQ, SQ]
   \<and> n_docstring ex_docstring (SourceWalker_init [3, 8] [])
       = Inr ((SourceWalker_init [3, 8]
                ([DQ, DQ, DQ] @ ''He said '' @ [DQ] @ ''hi'' @ [DQ] @ [NL] @ [DQ, DQ, DQ]))
              \<lparr> pending_newlines := 1 \<rparr>)"
proof -
  have h: "indent (params (SourceWalker_init [3, 8] [])) = replicate 0 (CHR '' '')"
    by (simp add: SourceWalker_init_def)
  from n_docstring_ex_doc[OF h] show ?thesis
    by (simp add: SourceWalker_init_def)
qed

section \<open>Handlers\<close>

text \<open>
  Claim C6, as the code has it. For an import alias rendered for a Python version above
  2.1, with imported name \<open>iname\<close> and bound name \<open>sname\<close>, \<open>n_alias\<close> writes the imported
  name alone exactly when it is not empty and equal to the bound name, or starts with the
  bound name followed by a dot; in all other cases it writes the imported name, \<open>as\<close>
  and the bound name.
\<close>

theorem n_alias_as_suffix:
  assumes "\<not> version s \<le> [2, 1]"
    and "child node (- 1) = Inr last_child"
    and "child last_child (- 1) = Inr store_node"
    and "startswith (kind_of store_node) ''STORE_''"
    and "child node 0 = Inr node0"
    and "pattr_of node0 = Inr (PStr iname)"
    and "pattr_of store_node = Inr (PStr sname)"
  shows "n_alias node s =
           Inr (if (iname \<noteq> [] \<and> iname = sname) \<or> startswith iname (sname @ ''.'')
                then write_data [iname] s
                else write_data [iname, '' as '', sname] s)"
  using assms by (auto simp: n_alias_def err_bind_def)

lemma ex_alias_children:
  "child (ex_alias iname sname) (- 1) = Inr (Tree ''store'' [Tok (tok ''STORE_NAME'' (PStr sname) 2)])"
  "child (Tree ''store'' [Tok (tok ''STORE_NAME'' (PStr sname) 2)]) (- 1)
     = Inr (Tok (tok ''STORE_NAME'' (PStr sname) 2))"
  "startswith (kind_of (Tok (tok ''STORE_NAME'' (PStr sname) 2))) ''STORE_''"
  "child (ex_alias iname sname) 0 = Inr (Tok (tok ''IMPORT_NAME'' (PStr iname) 0))"
  "pattr_of (Tok (tok ''IMPORT_NAME'' (PStr iname) 0)) = Inr (PStr iname)"
  "pattr_of (Tok (tok ''STORE_NAME'' (PStr sname) 2)) = Inr (PStr sname)"
  by (simp_all add: ex_alias_def py_index_def tok_def startswith_def)

theorem n_alias_as_suffix_witness:
  "\<not> version (SourceWalker_init [3, 8] []) \<le> [2, 1]
   \<and> n_alias (ex_alias ''os.path'' ''os'') (SourceWalker_init [3, 8] [])
       = Inr (SourceWalker_init [3, 8] ''os.path'')
   \<and> n_alias (ex_alias ''os'' ''os'') (SourceWalker_init [3, 8] [])
       = Inr (SourceWalker_init [3, 8] ''os'')
   \<and> n_alias (ex_alias ''os.path'' ''path'') (SourceWalker_init [3, 8] [])
       = Inr (SourceWalker_init [3, 8] ''os.path as path'')"
proof -
  have v: "\<not> version (SourceWalker_init [3, 8] []) \<le> [2, 1]"
    by (simp add: SourceWalker_init_def)
  note T = n_alias_as_suffix[OF v ex_alias_children]
  show ?thesis
    using v T[of "''os.path''" "''os''"] T[of "''os''" "''os''"] T[of "''os.path''" "''path''"]
    by (simp add: startswith_def write_data_def f_write_def SourceWalker_init_def)
qed

text \<open>
  Claim C6 as stated fails: for \<open>os.path\<close> bound to \<open>path\<close>, its last dotted component,
  the suffix is written; bound to \<open>os\<close>, which is neither the imported name nor its last
  component, the suffix is omitted.
\<close>

theorem n_alias_as_suffix_counterexample:
  "n_alias (ex_alias ''os.path'' ''path'') (SourceWalker_init [3, 8] [])
     = Inr (SourceWalker_init [3, 8] ''os.path as path'')
   \<and> n_alias (ex_alias ''os.path'' ''os'') (SourceWalker_init [3, 8] [])
     = Inr (SourceWalker_init [3, 8] ''os.path'')"
  by (simp add: n_alias_def ex_alias_def err_bind_def py_index_def tok_def startswith_def
        write_data_def f_write_def SourceWalker_init_def)

lemma println_pass:
  assumes "indent (params s) = replicate j (CHR '' '')"
  shows "println [indent (params s), ''pass''] s
           = s\<lparr> params := (params s)\<lparr> f_buffer :=
                    f_buffer (params s) @ replicate (pending_newlines s) NL
                    @ replicate j (CHR '' '') @ ''pass'' \<rparr>,
                pending_newlines := 1 \<rparr>"
proof -
  have "println [replicate j (CHR '' ''), ''pass''] s
          = (f_write (concat [replicate j (CHR '' ''), ''pass'']) (flush_newlines s))
              \<lparr> pending_newlines := 1 \<rparr>"
    by (rule println_text) (cases j; simp)+
  then show ?thesis
    using assms by (simp add: flush_newlines_def f_write_def)
qed

text \<open>
  Claim C10. For a tree without children \<open>gen_source\<close> writes \<open>pass\<close> at the current
  indentation, after the pending newlines, and leaves one newline pending; \<open>name\<close> and
  \<open>return_none\<close> are restored and \<open>debug_opts\<close> is set. Neither \<open>customize\<close> nor the
  render of \<open>traverse\<close> takes part in the result.
\<close>

theorem gen_source_empty_tree:
  assumes "indent (params s) = replicate j (CHR '' '')"
  shows "gen_source customize render (Tree k []) nm cust lam returnNone dbg s
           = Inr (s\<lparr> params := (params s)\<lparr> f_buffer :=
                        f_buffer (params s) @ replicate (pending_newlines s) NL
                        @ replicate j (CHR '' '') @ ''pass'' \<rparr>,
                    pending_newlines := 1,
                    debug_opts := dbg \<rparr>)"
proof -
  let ?s2 = "s\<lparr> return_none := returnNone, name := nm, debug_opts := dbg \<rparr>"
  have "indent (params ?s2) = replicate j (CHR '' '')"
    using assms by simp
  from println_pass[OF this] show ?thesis
    by (simp add: gen_source_def err_bind_def Let_def)
qed

theorem gen_source_empty_tree_witness:
  "indent (params (SourceWalker_init [3, 8] [])) = replicate 0 (CHR '' '')
   \<and> gen_source (\<lambda>c s. Inl AssertionError) (\<lambda>n s. Inl AssertionError) (Tree ''stmts'' [])
        (Some ''<module>'') () False False [] (SourceWalker_init [3, 8] [])
       = Inr ((SourceWalker_init [3, 8] ''pass'')\<lparr> pending_newlines := 1 \<rparr>)"
proof -
  have h: "indent (params (SourceWalker_init [3, 8] [])) = replicate 0 (CHR '' '')"
    by (simp add: SourceWalker_init_def)
  from gen_source_empty_tree[OF h] h show ?thesis
    by (simp add: SourceWalker_init_def)
qed

section \<open>Nested scopes\<close>

lemma write_data_param_stack [simp]: "param_stack (write_data d s) = param_stack s"
  by (simp add: write_data_def f_write_def Let_def)

text \<open>
  Claim C9. \<open>traverse\<close> starts the render of the node with an empty stream and no pending
  newline. When that render returns with the parameter stack as it found it, \<open>traverse\<close>
  returns what the render wrote to that stream, followed by its pending newlines, and
  the caller's \<open>params\<close> (stream and indentation included), its parameter stack and its
  count of pending newlines are what they were before the call.
\<close>

theorem traverse_restores_caller:
  assumes "render node (traverse_scope ind lam s) = Inr s4"
    and "param_stack s4 = param_stack (traverse_scope ind lam s)"
  shows "f_buffer (params (traverse_scope ind lam s)) = []
       \<and> pending_newlines (traverse_scope ind lam s) = 0
       \<and> traverse render node ind lam s
           = Inr (f_buffer (params s4) @ replicate (pending_newlines s4) NL,
                  s4\<lparr> params := params s, param_stack := param_stack s,
                      pending_newlines := pending_newlines s \<rparr>)"
  using assms
  by (simp add: traverse_def traverse_scope_def f_write_def Let_def)

theorem traverse_restores_caller_witness:
  "traverse nested_writes () None False
     ((SourceWalker_init [3, 8] ''x = '')\<lparr> pending_newlines := 2 \<rparr>)
     = Inr ([CHR ''('', NL, NL, CHR ''a'', NL, CHR '')''],
            (SourceWalker_init [3, 8] ''x = '')\<lparr> pending_newlines := 2 \<rparr>)"
proof -
  let ?s = "(SourceWalker_init [3, 8] ''x = '')\<lparr> pending_newlines := 2 \<rparr>"
  let ?t = "traverse_scope None False ?s"
  have inner: "traverse four_writes () None True ?t = Inr ([NL, NL, CHR ''a'', NL], ?t)"
    using traverse_restores_caller[of four_writes "()" None True ?t
        "write_data [[NL]] (write_data [[NL]] (write_data [''a''] (write_data [[NL, NL]]
           (traverse_scope None True ?t))))"]
    by (simp add: four_writes_def)
       (simp add: write_data_def f_write_def traverse_scope_def SourceWalker_init_def Let_def)
  have n: "nested_writes () ?t = Inr (write_data [''('', [NL, NL, CHR ''a'', NL], '')''] ?t)"
    by (simp add: nested_writes_def inner err_bind_def)
  from traverse_restores_caller[of nested_writes "()" None False ?s, OF n]
  show ?thesis
    by (simp add: write_data_def f_write_def traverse_scope_def SourceWalker_init_def Let_def)
qed

section \<open>The end of \<open>code_deparse\<close>\<close>

lemma write_data_ast_errors [simp]: "ast_errors (write_data d s) = ast_errors s"
  by (simp add: write_data_def f_write_def Let_def)



lemma foldl_write_ast_errors [simp]:
  "ast_errors (foldl (\<lambda>s x. write_data [g x] s) s xs) = ast_errors s"
  by (induction xs arbitrary: s) simp_all

lemma newline_run_takeWhile: "newline_run xs = length (takeWhile (\<lambda>c. c = NL) xs)"
  by (induction xs) simp_all






















section \<open>Precedence\<close>

lemma write_data_prec [simp]: "prec (write_data d s) = prec s"
  by (simp add: write_data_def f_write_def Let_def)

lemma set_pos_info_prec [simp]: "prec (set_pos_info node s) = prec s"
  by (cases node) (simp_all split: option.splits)

lemma child_no_single_return:
  "child node i = Inr c \<Longrightarrow> no_single_return node \<Longrightarrow> no_single_return c"
  by (cases node) (auto simp: py_index_def Let_def list_all_length split: if_splits)

lemma preorder_expr:
  assumes "kind_of node = ''expr'' \<or> kind_of node = ''return_expr_or_cond''"
  shows "preorder P other node s
           = (case n_expr P other node s of
                Inl e \<Rightarrow> Inl e | Inr s1 \<Rightarrow> Inr (set_pos_info node s1))"
  using assms by (subst preorder.simps) (auto split: sum.splits)

lemma preorder_return_expr:
  assumes "kind_of node = ''return_expr''"
  shows "preorder P other node s
           = (case n_return_expr P other node s of
                Inl e \<Rightarrow> Inl e | Inr s1 \<Rightarrow> Inr (set_pos_info node s1))"
  using assms by (subst preorder.simps) (auto split: sum.splits)

lemma preorder_bin_op:
  assumes "kind_of node = ''bin_op''"
  shows "preorder P other node s
           = (case n_bin_op P other node s of
                Inl e \<Rightarrow> Inl e | Inr s1 \<Rightarrow> Inr (set_pos_info node s1))"
  using assms by (subst preorder.simps) (auto split: sum.splits)

lemma preorder_other:
  assumes "kind_of node \<noteq> ''expr''" and "kind_of node \<noteq> ''return_expr_or_cond''"
    and "kind_of node \<noteq> ''return_expr''" and "kind_of node \<noteq> ''bin_op''"
  shows "preorder P other node s
           = (case other node s of
                Inl e \<Rightarrow> Inl e
              | Inr (s1, pruned) \<Rightarrow>
                  (case (if pruned then Inr s1 else preorder_kids P other (kids node) s1) of
                     Inl e \<Rightarrow> Inl e
                   | Inr s2 \<Rightarrow> Inr (set_pos_info node s2)))"
  using assms by (subst preorder.simps) simp



lemma n_expr_restores_prec:
  assumes "n_expr P other node s = Inr s'"
  shows "prec s' = prec s"
  using assms
  by (subst (asm) n_expr.simps) (auto simp: Let_def split: sum.splits if_splits)

lemma n_return_expr_keeps_prec:
  assumes "n_return_expr P other node s = Inr s'"
    and "kind_of node = ''return_expr''" and "no_single_return node"
  shows "prec s' = prec s"
proof (cases node)
  case (Tok t)
  with assms(1) show ?thesis
    by (subst (asm) n_return_expr.simps) simp
next
  case (Tree k cs)
  with assms(2,3) have ns: "\<not> (length cs = 1 \<and> kind_of (hd cs) = ''expr'')"
    by simp
  have "n_return_expr P other node s = n_expr P other node s"
  proof (cases cs)
    case Nil
    with Tree show ?thesis
      by (subst n_return_expr.simps) (simp add: py_index_def)
  next
    case (Cons c cs')
    with Tree ns show ?thesis
      by (subst n_return_expr.simps) (auto simp: py_index_def)
  qed
  with assms(1) show ?thesis
    by (simp add: n_expr_restores_prec)
qed

text \<open>
  The handlers modelled here give the precedence back, on every tree without a
  \<open>return_expr\<close> node with the single child \<open>expr\<close>, when the other handlers do.
\<close>

lemma preorder_keeps_prec_all:
  shows "\<forall>n s s' b. other n s = Inr (s', b) \<longrightarrow> prec s' = prec s
           \<Longrightarrow> preorder P other node s = Inr s' \<Longrightarrow> no_single_return node
           \<Longrightarrow> prec s' = prec s"
    and "\<forall>n s s' b. other n s = Inr (s', b) \<longrightarrow> prec s' = prec s
           \<Longrightarrow> preorder_kids P other ks s = Inr s' \<Longrightarrow> list_all no_single_return ks
           \<Longrightarrow> prec s' = prec s"
    and "True" and "True"
    and "\<forall>n s s' b. other n s = Inr (s', b) \<longrightarrow> prec s' = prec s
           \<Longrightarrow> n_bin_op P other node s = Inr s' \<Longrightarrow> no_single_return node
           \<Longrightarrow> prec s' = prec s"
proof (induction P other node s and P other ks s and P other node s and P other node s
    and P other node s arbitrary: s' and s' and and and s'
    rule: preorder_preorder_kids_n_expr_n_return_expr_n_bin_op.induct)
  case (1 P other node s)
  note o = "1.prems"(1)
  note run = "1.prems"(2)
  note ns = "1.prems"(3)
  have kl: "list_all no_single_return (kids node)"
    using ns by (cases node) simp_all
  show ?case
  proof (cases "kind_of node = ''expr'' \<or> kind_of node = ''return_expr_or_cond''")
    case True
    with run obtain s1 where "n_expr P other node s = Inr s1"
      and "s' = set_pos_info node s1"
      by (auto simp: preorder_expr split: sum.splits)
    then show ?thesis
      by (simp add: n_expr_restores_prec)
  next
    case ne: False
    show ?thesis
    proof (cases "kind_of node = ''return_expr''")
      case True
      with run obtain s1 where "n_return_expr P other node s = Inr s1"
        and "s' = set_pos_info node s1"
        by (auto simp: preorder_return_expr split: sum.splits)
      with True ns show ?thesis
        by (simp add: n_return_expr_keeps_prec)
    next
      case nr: False
      show ?thesis
      proof (cases "kind_of node = ''bin_op''")
        case True
        with run obtain s1 where a: "n_bin_op P other node s = Inr s1"
          and b: "s' = set_pos_info node s1"
          by (auto simp: preorder_bin_op split: sum.splits)
        from "1.IH"(3)[OF ne nr True o a ns] b show ?thesis
          by simp
      next
        case nb: False
        from ne nr nb have un: "preorder P other node s
           = (case other node s of
                Inl e \<Rightarrow> Inl e
              | Inr (s1, pruned) \<Rightarrow>
                  (case (if pruned then Inr s1 else preorder_kids P other (kids node) s1) of
                     Inl e \<Rightarrow> Inl e
                   | Inr s2 \<Rightarrow> Inr (set_pos_info node s2)))"
          by (intro preorder_other) simp_all
        from run obtain s1 pruned s2 where a: "other node s = Inr (s1, pruned)"
          and k: "(if pruned then Inr s1 else preorder_kids P other (kids node) s1) = Inr s2"
          and b: "s' = set_pos_info node s2"
          unfolding un by (auto split: sum.splits prod.splits)
        have p1: "prec s1 = prec s"
          using a o by blast
        have "prec s2 = prec s1"
        proof (cases pruned)
          case True
          with k show ?thesis by simp
        next
          case False
          with k have kk: "preorder_kids P other (kids node) s1 = Inr s2"
            by simp
          have h: "(if kind_of node = ''expr'' \<or> kind_of node = ''return_expr_or_cond''
            then case n_expr P other node s of Inl x \<Rightarrow> Inl x
                 | Inr s1 \<Rightarrow> Inr (s1, True)
            else if kind_of node = ''return_expr''
                 then case n_return_expr P other node s of Inl x \<Rightarrow> Inl x
                      | Inr s1 \<Rightarrow> Inr (s1, True)
                 else if kind_of node = ''bin_op''
                      then case n_bin_op P other node s of Inl x \<Rightarrow> Inl x
                           | Inr s1 \<Rightarrow> Inr (s1, True)
                      else other node s) = Inr (s1, pruned)"
            using ne nr nb a by simp
          from "1.IH"(4)[OF h refl False o kk kl] show ?thesis .
        qed
        with p1 b show ?thesis by simp
      qed
    qed
  qed
next
  case (2 P other s)
  then show ?case by (simp add: preorder_kids.simps)
next
  case (3 P other k ks s)
  note o = "3.prems"(1)
  from "3.prems"(2) obtain s1 where a: "preorder P other k s = Inr s1"
    and b: "preorder_kids P other ks s1 = Inr s'"
    by (subst (asm) preorder_kids.simps) (auto split: sum.splits)
  from "3.prems"(3) have nk: "no_single_return k" and nks: "list_all no_single_return ks"
    by simp_all
  from "3.IH"(1)[OF o a nk] "3.IH"(2)[OF a o b nks] show ?case by simp
next
  case (4 P other node s)
  show ?case by simp
next
  case (5 P other node s)
  show ?case by simp
next
  case (6 P other node s)
  note o = "6.prems"(1)
  from "6.prems"(2) obtain c0 s1 cl s2 c1 s5 where
    c0: "child node 0 = Inr c0" and r0: "preorder P other c0 s = Inr s1"
    and cl: "child node (- 1) = Inr cl"
    and rl: "preorder P other cl (write_data ['' ''] s1) = Inr s2"
    and c1: "child node 1 = Inr c1"
    and r1: "preorder P other c1
               ((write_data ['' ''] s2)\<lparr> prec := prec (write_data ['' ''] s2) - 1 \<rparr>) = Inr s5"
    and s': "s' = s5\<lparr> prec := prec s5 + 1 \<rparr>"
    by (subst (asm) n_bin_op.simps) (auto simp: Let_def split: sum.splits)
  note ns = "6.prems"(3)
  have p1: "prec s1 = prec s"
    using "6.IH"(1)[OF c0 o r0] c0 ns by (simp add: child_no_single_return)
  have p2: "prec s2 = prec s1"
    using "6.IH"(2)[OF c0 r0 cl o rl] cl ns by (simp add: child_no_single_return)
  have p5: "prec s5 = prec s2 - 1"
    using "6.IH"(3)[OF c0 r0 cl rl refl refl c1 o r1] c1 ns
    by (simp add: child_no_single_return)
  from p1 p2 p5 s' show ?case by simp
qed

text \<open>
  Claim C7 does not hold for \<open>n_return_expr\<close>. The render of a \<open>return_expr\<close> node with a
  single \<open>expr\<close> child sets \<open>self.prec\<close> to \<open>PRECEDENCE["yield"] - 1\<close> without saving it,
  and \<open>n_expr\<close> then saves and restores that lowered value: after the call the caller
  finds \<open>PRECEDENCE["yield"] - 1\<close>, whatever the precedence was before.
\<close>

theorem n_return_expr_lowers_prec:
  assumes "P ''yield'' = Some y"
    and "preorder P other (Tree ''return_expr'' [Tree ''expr'' [c]]) s = Inr s'"
  shows "prec s' = y - 1"
proof -
  from assms(2) obtain s1 where
    r: "n_return_expr P other (Tree ''return_expr'' [Tree ''expr'' [c]]) s = Inr s1"
    and s': "s' = s1"
    by (subst (asm) preorder.simps) (auto split: sum.splits)
  from r assms(1) have "n_expr P other (Tree ''expr'' [c]) (s\<lparr> prec := y - 1 \<rparr>) = Inr s1"
    by (subst (asm) n_return_expr.simps) (simp add: py_index_def)
  then have "prec s1 = prec (s\<lparr> prec := y - 1 \<rparr>)"
    by (rule n_expr_restores_prec)
  with s' show ?thesis by simp
qed

lemma ex_return_expr_render:
  "preorder ex_PRECEDENCE ex_other ex_return_expr (SourceWalker_init [3, 8] [])
     = Inr ((SourceWalker_init [3, 8] ''x'')\<lparr> prec := 37 \<rparr>)"
  by (simp add: ex_return_expr_def ex_PRECEDENCE_def preorder.simps n_return_expr.simps
        n_expr.simps py_index_def startswith_def tok_def write_data_def f_write_def
        SourceWalker_init_def Let_def)

theorem n_return_expr_lowers_prec_witness:
  "ex_PRECEDENCE ''yield'' = Some 38
   \<and> prec (SourceWalker_init [3, 8] []) = 100
   \<and> preorder ex_PRECEDENCE ex_other ex_return_expr (SourceWalker_init [3, 8] [])
       = Inr ((SourceWalker_init [3, 8] ''x'')\<lparr> prec := 37 \<rparr>)
   \<and> prec ((SourceWalker_init [3, 8] ''x'')\<lparr> prec := 37 \<rparr>) = 38 - 1"
proof -
  have y: "ex_PRECEDENCE ''yield'' = Some 38"
    by (simp add: ex_PRECEDENCE_def)
  have p: "prec (SourceWalker_init [3, 8] []) = 100"
    by (simp add: SourceWalker_init_def)
  note e = ex_return_expr_render
  from n_return_expr_lowers_prec[OF y e[unfolded ex_return_expr_def]] y p e
  show ?thesis by simp
qed

end
